theory Spec2Isabelle
  imports Complex_Main
begin

section \<open>Data model\<close>

text \<open>
  The tables the Elo service reads and writes, as lists of rows in table order. Only the
  columns the service uses are kept; serial ids and timestamps (\<open>id\<close>, \<open>updated_at\<close>,
  \<open>created_at\<close>) are left out, and SQL \<open>INTEGER\<close> is an unbounded \<open>int\<close>.
  JavaScript numbers are modelled as reals (IEEE rounding is not modelled).
\<close>

datatype league = Academy | Champion | Master

record scrim =
  scrim_id :: int
  status :: string
  scrim_league :: league
  winner_team :: "int option"
  elo_processed :: "bool option"

record scrim_player =
  sp_scrim_id :: int
  sp_player_id :: int

record match_player_stat =
  mps_scrim_id :: int
  mps_player_id :: int
  mps_team_id :: int

record elo_rating =
  er_player_id :: int
  er_league :: league
  rating :: int
  wins :: int
  losses :: int

record elo_history_row =
  eh_player_id :: int
  eh_scrim_id :: int
  old_rating :: int
  new_rating :: int

text \<open>A row of the participants query: \<open>team_id\<close> is \<open>NULL\<close> when the left join finds no stats.\<close>

record player_row =
  player_id :: int
  team_id :: "int option"

text \<open>
  The store. Besides the tables it holds \<open>row_rank\<close>, the store's choice of the order in
  which the participants query returns its rows (the query has no \<open>ORDER BY\<close>): rows
  come back sorted by rank, rows of equal rank in table order. No statement of the
  service changes it.
\<close>

record db =
  scrims :: "scrim list"
  scrim_players :: "scrim_player list"
  match_player_stats :: "match_player_stat list"
  elo_ratings :: "elo_rating list"
  elo_history :: "elo_history_row list"
  row_rank :: "player_row \<Rightarrow> nat"

datatype error =
    Scrim_not_found int
  | Scrim_not_completed int
  | No_winner_team int
  | Query_failed
  | Type_error

datatype log_entry =
    Info_already_processed int
  | Warn_missing_teams int
  | Info_processed int
  | Error_processing int error
  | Info_found_unprocessed int
  | Error_polling error

section \<open>The connection: a transaction over the store, with injected query failures\<close>

text \<open>
  A client holds the committed database, the view of its transaction (\<open>work\<close>, which
  differs from \<open>committed\<close> exactly by the writes not yet committed or rolled back), the
  number of queries issued so far in the current call, the number of
  \<open>INSERT\<close>/\<open>UPDATE\<close> statements executed, and the log. The set \<open>F\<close> names the queries
  (by their index in the call) that the store rejects. Acquiring the client is assumed to
  succeed. \<open>BEGIN\<close> changes no data: on a client whose transaction is still open it
  continues that transaction, as PostgreSQL does (with a warning).
\<close>

record conn =
  committed :: db
  work :: db
  qn :: nat
  nwrites :: nat
  logs :: "log_entry list"

type_synonym 'a tx = "conn \<Rightarrow> (error + 'a) \<times> conn"

definition return_tx :: "'a \<Rightarrow> 'a tx" where
  "return_tx x = (\<lambda>c. (Inr x, c))"

definition throw :: "error \<Rightarrow> 'a tx" where
  "throw e = (\<lambda>c. (Inl e, c))"

definition bind_tx :: "'a tx \<Rightarrow> ('a \<Rightarrow> 'b tx) \<Rightarrow> 'b tx" where
  "bind_tx m f = (\<lambda>c. case m c of (Inl e, c') \<Rightarrow> (Inl e, c') | (Inr x, c') \<Rightarrow> f x c')"

definition lift :: "error + 'a \<Rightarrow> 'a tx" where
  "lift r = (\<lambda>c. (r, c))"

definition logger :: "log_entry \<Rightarrow> unit tx" where
  "logger l = (\<lambda>c. (Inr (), c\<lparr>logs := logs c @ [l]\<rparr>))"

definition query_read :: "nat set \<Rightarrow> (db \<Rightarrow> 'a) \<Rightarrow> 'a tx" where
  "query_read F q = (\<lambda>c.
     if qn c \<in> F then (Inl Query_failed, c\<lparr>qn := qn c + 1\<rparr>)
     else (Inr (q (work c)), c\<lparr>qn := qn c + 1\<rparr>))"

definition query_write :: "nat set \<Rightarrow> (db \<Rightarrow> db) \<Rightarrow> unit tx" where
  "query_write F q = (\<lambda>c.
     if qn c \<in> F then (Inl Query_failed, c\<lparr>qn := qn c + 1\<rparr>)
     else (Inr (), c\<lparr>work := q (work c), qn := qn c + 1, nwrites := nwrites c + 1\<rparr>))"

definition query_begin :: "nat set \<Rightarrow> unit tx" where
  "query_begin F = (\<lambda>c.
     if qn c \<in> F then (Inl Query_failed, c\<lparr>qn := qn c + 1\<rparr>)
     else (Inr (), c\<lparr>qn := qn c + 1\<rparr>))"

definition query_commit :: "nat set \<Rightarrow> unit tx" where
  "query_commit F = (\<lambda>c.
     if qn c \<in> F then (Inl Query_failed, c\<lparr>qn := qn c + 1\<rparr>)
     else (Inr (), c\<lparr>committed := work c, qn := qn c + 1\<rparr>))"

definition query_rollback :: "nat set \<Rightarrow> unit tx" where
  "query_rollback F = (\<lambda>c.
     if qn c \<in> F then (Inl Query_failed, c\<lparr>qn := qn c + 1\<rparr>)
     else (Inr (), c\<lparr>work := committed c, qn := qn c + 1\<rparr>))"

section \<open>The queries of the service\<close>

text \<open>\<open>SELECT * FROM scrims WHERE id = $1\<close>, first row.\<close>

definition select_scrim :: "int \<Rightarrow> db \<Rightarrow> scrim option" where
  "select_scrim scrimId d = find (\<lambda>s. scrim_id s = scrimId) (scrims d)"

text \<open>
  The participants of a scrim, left-joined with their stats and grouped by
  \<open>(player_id, team_id)\<close>. SQL leaves the row order open: the distinct rows are
  returned in the order \<open>row_rank\<close> gives them (every order of the rows is the order of
  some rank, see \<open>rank_for_any_order\<close>).
\<close>

definition joined_rows :: "db \<Rightarrow> scrim_player \<Rightarrow> player_row list" where
  "joined_rows d sp =
     (let ms = filter (\<lambda>m. sp_player_id sp = mps_player_id m \<and> mps_scrim_id m = sp_scrim_id sp)
                 (match_player_stats d)
      in if ms = [] then [\<lparr>player_id = sp_player_id sp, team_id = None\<rparr>]
         else map (\<lambda>m. \<lparr>player_id = sp_player_id sp, team_id = Some (mps_team_id m)\<rparr>) ms)"

definition select_players :: "int \<Rightarrow> db \<Rightarrow> player_row list" where
  "select_players scrimId d =
     sort_key (row_rank d)
       (remdups (concat (map (joined_rows d)
         (filter (\<lambda>sp. sp_scrim_id sp = scrimId) (scrim_players d)))))"

text \<open>\<open>SELECT * FROM elo_ratings WHERE player_id = $1 AND league = $2\<close>, first row.\<close>

definition select_rating :: "int \<Rightarrow> league \<Rightarrow> db \<Rightarrow> elo_rating option" where
  "select_rating p l d = find (\<lambda>r. er_player_id r = p \<and> er_league r = l) (elo_ratings d)"

text \<open>The upsert of a rating: insert, or on conflict overwrite the rating and add to the counters.\<close>

definition upsert_rating :: "int \<Rightarrow> league \<Rightarrow> int \<Rightarrow> bool \<Rightarrow> db \<Rightarrow> db" where
  "upsert_rating p l newRating isWin d =
     (if list_ex (\<lambda>r. er_player_id r = p \<and> er_league r = l) (elo_ratings d)
      then d\<lparr>elo_ratings :=
             map (\<lambda>r. if er_player_id r = p \<and> er_league r = l
                      then r\<lparr>rating := newRating,
                             wins := wins r + (if isWin then 1 else 0),
                             losses := losses r + (if isWin then 0 else 1)\<rparr>
                      else r) (elo_ratings d)\<rparr>
      else d\<lparr>elo_ratings := elo_ratings d @
             [\<lparr>er_player_id = p, er_league = l, rating = newRating,
               wins = (if isWin then 1 else 0), losses = (if isWin then 0 else 1)\<rparr>]\<rparr>)"

definition insert_history :: "int \<Rightarrow> int \<Rightarrow> int \<Rightarrow> int \<Rightarrow> db \<Rightarrow> db" where
  "insert_history p scrimId oldR newR d =
     d\<lparr>elo_history := elo_history d @
        [\<lparr>eh_player_id = p, eh_scrim_id = scrimId, old_rating = oldR, new_rating = newR\<rparr>]\<rparr>"

text \<open>\<open>UPDATE scrims SET elo_processed = TRUE WHERE id = $1\<close>.\<close>

definition mark_processed :: "int \<Rightarrow> db \<Rightarrow> db" where
  "mark_processed scrimId d =
     d\<lparr>scrims := map (\<lambda>s. if scrim_id s = scrimId then s\<lparr>elo_processed := Some True\<rparr> else s)
                    (scrims d)\<rparr>"

section \<open>EloService\<close>

text \<open>\<open>Math.round\<close> rounds to the nearest integer, halves upwards.\<close>

definition math_round :: "real \<Rightarrow> int" where
  "math_round x = \<lfloor>x + 1 / 2\<rfloor>"

definition calculateNewRating :: "real \<Rightarrow> real \<Rightarrow> real \<Rightarrow> int" where
  "calculateNewRating currentRating opponentRating result =
     (let K = 32;
          expectedScore = 1 / (1 + 10 powr ((opponentRating - currentRating) / 400))
      in math_round (currentRating + K * (result - expectedScore)))"

definition updatePlayerRating ::
  "nat set \<Rightarrow> int \<Rightarrow> int \<Rightarrow> league \<Rightarrow> elo_rating \<Rightarrow> int \<Rightarrow> bool \<Rightarrow> unit tx" where
  "updatePlayerRating F playerId scrimId l currentRating newRating isWin =
     bind_tx (query_write F (upsert_rating playerId l newRating isWin)) (\<lambda>_.
       query_write F (insert_history playerId scrimId (rating currentRating) newRating))"

text \<open>Step 3: the loop that fills the in-memory map of current ratings.\<close>

fun fetch_ratings ::
  "nat set \<Rightarrow> league \<Rightarrow> player_row list \<Rightarrow> (int \<rightharpoonup> elo_rating) \<Rightarrow> (int \<rightharpoonup> elo_rating) tx" where
  "fetch_ratings F l [] ratings = return_tx ratings"
| "fetch_ratings F l (p # ps) ratings =
     bind_tx (query_read F (select_rating (player_id p) l)) (\<lambda>ratingResult.
       case ratingResult of
         Some r \<Rightarrow> fetch_ratings F l ps (ratings(player_id p \<mapsto> r))
       | None \<Rightarrow> fetch_ratings F l ps (ratings(player_id p \<mapsto>
           \<lparr>er_player_id = player_id p, er_league = l, rating = 1000, wins = 0, losses = 0\<rparr>)))"

text \<open>\<open>ratings.get(id)!\<close>: reading a field of a missing entry raises a TypeError.\<close>

definition ratings_get :: "(int \<rightharpoonup> elo_rating) \<Rightarrow> int \<Rightarrow> error + elo_rating" where
  "ratings_get ratings p = (case ratings p of None \<Rightarrow> Inl Type_error | Some r \<Rightarrow> Inr r)"

fun team_sum :: "(int \<rightharpoonup> elo_rating) \<Rightarrow> player_row list \<Rightarrow> int \<Rightarrow> error + int" where
  "team_sum ratings [] acc = Inr acc"
| "team_sum ratings (p # ps) acc =
     (case ratings_get ratings (player_id p) of
        Inl e \<Rightarrow> Inl e
      | Inr r \<Rightarrow> team_sum ratings ps (acc + rating r))"

definition team_avg :: "(int \<rightharpoonup> elo_rating) \<Rightarrow> player_row list \<Rightarrow> error + real" where
  "team_avg ratings team =
     (case team_sum ratings team 0 of
        Inl e \<Rightarrow> Inl e
      | Inr s \<Rightarrow> Inr (real_of_int s / real (length team)))"

text \<open>The loops over one team: compute each new rating and write it.\<close>

fun update_team ::
  "nat set \<Rightarrow> scrim \<Rightarrow> (int \<rightharpoonup> elo_rating) \<Rightarrow> real \<Rightarrow> int \<Rightarrow> player_row list \<Rightarrow> unit tx" where
  "update_team F s ratings oppAvg teamResult [] = return_tx ()"
| "update_team F s ratings oppAvg teamResult (p # ps) =
     bind_tx (lift (ratings_get ratings (player_id p))) (\<lambda>currentRating.
     bind_tx (updatePlayerRating F (player_id p) (scrim_id s) (scrim_league s) currentRating
                (calculateNewRating (real_of_int (rating currentRating)) oppAvg (real_of_int teamResult))
                (teamResult = 1)) (\<lambda>_.
       update_team F s ratings oppAvg teamResult ps))"

text \<open>JavaScript truthiness of \<open>scrim.winner_team\<close> and \<open>scrim.elo_processed\<close>.\<close>

definition truthy_int :: "int option \<Rightarrow> bool" where
  "truthy_int v = (case v of None \<Rightarrow> False | Some n \<Rightarrow> n \<noteq> 0)"

definition truthy_bool :: "bool option \<Rightarrow> bool" where
  "truthy_bool v = (case v of None \<Rightarrow> False | Some b \<Rightarrow> b)"

text \<open>Step 4 and 5 of \<open>processMatch\<close>, after the ratings are fetched.\<close>

definition rate_teams :: "nat set \<Rightarrow> int \<Rightarrow> scrim \<Rightarrow> player_row list \<Rightarrow> (int \<rightharpoonup> elo_rating) \<Rightarrow> unit tx" where
  "rate_teams F scrimId s players ratings =
     (let team1 = filter (\<lambda>p. team_id p = Some 1) players;
          team2 = filter (\<lambda>p. team_id p = Some 2) players
      in if team1 = [] \<or> team2 = [] then
           bind_tx (logger (Warn_missing_teams scrimId)) (\<lambda>_. query_rollback F)
         else
           bind_tx (lift (team_avg ratings team1)) (\<lambda>team1AvgRating.
           bind_tx (lift (team_avg ratings team2)) (\<lambda>team2AvgRating.
           let team1Result = (if winner_team s = Some 1 then 1 else 0);
               team2Result = (if winner_team s = Some 2 then 1 else 0)
           in
           bind_tx (update_team F s ratings team2AvgRating team1Result team1) (\<lambda>_.
           bind_tx (update_team F s ratings team1AvgRating team2Result team2) (\<lambda>_.
           bind_tx (query_write F (mark_processed scrimId)) (\<lambda>_.
           bind_tx (query_commit F) (\<lambda>_.
             logger (Info_processed scrimId))))))))"

text \<open>The body of the \<open>try\<close> block of \<open>processMatch\<close>.\<close>

definition try_body :: "nat set \<Rightarrow> int \<Rightarrow> unit tx" where
  "try_body F scrimId =
     bind_tx (query_begin F) (\<lambda>_.
     bind_tx (query_read F (select_scrim scrimId)) (\<lambda>scrimResult.
       case scrimResult of
         None \<Rightarrow> throw (Scrim_not_found scrimId)
       | Some s \<Rightarrow>
           if status s \<noteq> ''completed'' then throw (Scrim_not_completed scrimId)
           else if truthy_bool (elo_processed s) then
             bind_tx (logger (Info_already_processed scrimId)) (\<lambda>_. query_rollback F)
           else if \<not> truthy_int (winner_team s) then throw (No_winner_team scrimId)
           else
             bind_tx (query_read F (select_players scrimId)) (\<lambda>players.
             bind_tx (fetch_ratings F (scrim_league s) players Map.empty) (\<lambda>ratings.
               rate_teams F scrimId s players ratings))))"

text \<open>The \<open>catch\<close> block: roll back, log the error, rethrow it.\<close>

definition catch_block :: "nat set \<Rightarrow> int \<Rightarrow> error \<Rightarrow> unit tx" where
  "catch_block F scrimId e =
     bind_tx (query_rollback F) (\<lambda>_.
     bind_tx (logger (Error_processing scrimId e)) (\<lambda>_.
       throw e))"

text \<open>
  What a call leaves behind. The caller receives \<open>raised\<close> only: the promise resolves
  without a value (\<open>None\<close>) or rejects with the error. The other fields are the effects:
  the committed database, the transaction view the client is released with (\<open>pending\<close>:
  \<open>client.release()\<close> rolls nothing back, so writes neither committed nor rolled back
  stay on the client), the log lines written, and the numbers of queries issued and of
  write statements executed.
\<close>

record call =
  raised :: "error option"
  db_after :: db
  pending :: db
  logged :: "log_entry list"
  queries :: nat
  writes :: nat

definition released :: "(error + unit) \<times> conn \<Rightarrow> call" where
  "released rc =
     \<lparr>raised = (case fst rc of Inl e \<Rightarrow> Some e | Inr _ \<Rightarrow> None),
      db_after = committed (snd rc),
      pending = work (snd rc),
      logged = logs (snd rc),
      queries = qn (snd rc),
      writes = nwrites (snd rc)\<rparr>"

text \<open>
  \<open>db.getClient()\<close> is not among the sources, so the client it hands out is a parameter
  of \<open>processMatch_on\<close>. \<open>connect d\<close> is a fresh client on the database \<open>d\<close>, and
  \<open>processMatch\<close> is a call on a fresh client; \<open>client_of r\<close> is the client of an earlier
  call \<open>r\<close>, handed out again as it was released.
\<close>

definition connect :: "db \<Rightarrow> conn" where
  "connect d = \<lparr>committed = d, work = d, qn = 0, nwrites = 0, logs = []\<rparr>"


definition processMatch_on :: "nat set \<Rightarrow> conn \<Rightarrow> int \<Rightarrow> call" where
  "processMatch_on F client scrimId =
     released (case try_body F scrimId client of
                 (Inr u, c) \<Rightarrow> (Inr u, c)
               | (Inl e, c) \<Rightarrow> catch_block F scrimId e c)"

definition processMatch :: "nat set \<Rightarrow> db \<Rightarrow> int \<Rightarrow> call" where
  "processMatch F d scrimId = processMatch_on F (connect d) scrimId"

text \<open>What the \<open>try\<close> block of a call on a fresh client raises, before the \<open>catch\<close>.\<close>

definition try_raised :: "nat set \<Rightarrow> db \<Rightarrow> int \<Rightarrow> error option" where
  "try_raised F d scrimId =
     (case fst (try_body F scrimId (connect d)) of Inl e \<Rightarrow> Some e | Inr _ \<Rightarrow> None)"

text \<open>
  The number of queries the \<open>try\<close> block has issued when it ends: the index of the
  next query, which after a raise is the \<open>ROLLBACK\<close> of the \<open>catch\<close> block.
\<close>

definition try_queries :: "nat set \<Rightarrow> db \<Rightarrow> int \<Rightarrow> nat" where
  "try_queries F d scrimId = qn (snd (try_body F scrimId (connect d)))"

section \<open>The polling cycle\<close>

text \<open>
  One firing of the timer of \<open>startEloPolling\<close>. \<open>Fs\<close> gives, for each scrim id, the
  failures injected into the \<open>processMatch\<close> call on it; \<open>qfail\<close> says whether the
  discovery query itself fails. Every \<open>processMatch\<close> call of the cycle runs on a fresh
  client.
\<close>

definition select_unprocessed :: "db \<Rightarrow> int list" where
  "select_unprocessed d =
     map scrim_id (filter (\<lambda>s. status s = ''completed'' \<and> elo_processed s = Some False
                               \<and> winner_team s \<noteq> None) (scrims d))"

fun process_rows :: "(int \<Rightarrow> nat set) \<Rightarrow> int list \<Rightarrow> db \<Rightarrow> log_entry list
    \<Rightarrow> error option \<times> db \<times> log_entry list" where
  "process_rows Fs [] d lg = (None, d, lg)"
| "process_rows Fs (i # is) d lg =
     (let r = processMatch (Fs i) d i;
          lg' = lg @ [Info_found_unprocessed i] @ logged r
      in case raised r of
           Some e \<Rightarrow> (Some e, db_after r, lg')
         | None \<Rightarrow> process_rows Fs is (db_after r) lg')"

definition poll_cycle :: "bool \<Rightarrow> (int \<Rightarrow> nat set) \<Rightarrow> db \<Rightarrow> db \<times> log_entry list" where
  "poll_cycle qfail Fs d =
     (if qfail then (d, [Error_polling Query_failed])
      else case process_rows Fs (select_unprocessed d) d [] of
             (Some e, d', lg) \<Rightarrow> (d', lg @ [Error_polling e])
           | (None, d', lg) \<Rightarrow> (d', lg))"

section \<open>Fault-free runs in closed form\<close>

text \<open>
  Auxiliary definitions for the proofs: what a run computes when no query fails. The
  rating a player enters the computation with is the stored row, or the default row the
  service synthesizes in memory (rating 1000, no wins, no losses).
\<close>

definition rating_or_default :: "int \<Rightarrow> league \<Rightarrow> db \<Rightarrow> elo_rating" where
  "rating_or_default p l d =
     (case select_rating p l d of
        Some r \<Rightarrow> r
      | None \<Rightarrow> \<lparr>er_player_id = p, er_league = l, rating = 1000, wins = 0, losses = 0\<rparr>)"

text \<open>The in-memory map after the loop of step 3 over the rows \<open>ps\<close>.\<close>

definition fetched :: "league \<Rightarrow> db \<Rightarrow> player_row list \<Rightarrow> (int \<rightharpoonup> elo_rating) \<Rightarrow> (int \<rightharpoonup> elo_rating)" where
  "fetched l d ps m = (\<lambda>q. if q \<in> player_id ` set ps then Some (rating_or_default q l d) else m q)"

text \<open>The average pre-match rating of a team, and the two writes for one rated player.\<close>

definition avg_rating :: "league \<Rightarrow> db \<Rightarrow> player_row list \<Rightarrow> real" where
  "avg_rating l d team =
     real_of_int (sum_list (map (\<lambda>p. rating (rating_or_default (player_id p) l d)) team))
       / real (length team)"

definition rate_player :: "scrim \<Rightarrow> db \<Rightarrow> real \<Rightarrow> int \<Rightarrow> player_row \<Rightarrow> db \<Rightarrow> db" where
  "rate_player s d0 oppAvg teamResult p d =
     (let cur = rating_or_default (player_id p) (scrim_league s) d0;
          new = calculateNewRating (real_of_int (rating cur)) oppAvg (real_of_int teamResult)
      in insert_history (player_id p) (scrim_id s) (rating cur) new
           (upsert_rating (player_id p) (scrim_league s) new (teamResult = 1) d))"

text \<open>
  The rows of the participants query on team \<open>t\<close>, the score of team \<open>t\<close>, and the
  database a successful run commits.
\<close>

definition team_of :: "int \<Rightarrow> db \<Rightarrow> int \<Rightarrow> player_row list" where
  "team_of t d scrimId = filter (\<lambda>p. team_id p = Some t) (select_players scrimId d)"

definition team_result :: "scrim \<Rightarrow> int \<Rightarrow> int" where
  "team_result s t = (if winner_team s = Some t then 1 else 0)"

definition processed_db :: "db \<Rightarrow> int \<Rightarrow> scrim \<Rightarrow> db" where
  "processed_db d scrimId s =
     (let l = scrim_league s; team1 = team_of 1 d scrimId; team2 = team_of 2 d scrimId
      in mark_processed scrimId
           (fold (rate_player s d (avg_rating l d team1) (team_result s 2)) team2
             (fold (rate_player s d (avg_rating l d team2) (team_result s 1)) team1 d)))"

text \<open>
  The effect of the upsert on a row, the new rating of player \<open>p\<close> of team \<open>t\<close>
  (against the average of the other team, \<open>3 - t\<close>), and the history row written.
\<close>

definition bump :: "int \<Rightarrow> bool \<Rightarrow> elo_rating \<Rightarrow> elo_rating" where
  "bump newRating isWin r =
     r\<lparr>rating := newRating,
       wins := wins r + (if isWin then 1 else 0),
       losses := losses r + (if isWin then 0 else 1)\<rparr>"

definition new_rating_of :: "db \<Rightarrow> int \<Rightarrow> scrim \<Rightarrow> int \<Rightarrow> int \<Rightarrow> int" where
  "new_rating_of d scrimId s t p =
     calculateNewRating (real_of_int (rating (rating_or_default p (scrim_league s) d)))
       (avg_rating (scrim_league s) d (team_of (3 - t) d scrimId))
       (real_of_int (team_result s t))"

definition history_entry :: "scrim \<Rightarrow> db \<Rightarrow> real \<Rightarrow> int \<Rightarrow> player_row \<Rightarrow> elo_history_row" where
  "history_entry s d0 oppAvg teamResult p =
     \<lparr>eh_player_id = player_id p, eh_scrim_id = scrim_id s,
      old_rating = rating (rating_or_default (player_id p) (scrim_league s) d0),
      new_rating = calculateNewRating
         (real_of_int (rating (rating_or_default (player_id p) (scrim_league s) d0)))
         oppAvg (real_of_int teamResult)\<rparr>"

section \<open>Transactions under injected failures\<close>

text \<open>
  Four properties of a transaction step that compose along \<open>bind_tx\<close>: a successful
  step with failures \<open>F\<close> is a successful fault-free step; a step leaves the committed
  database alone; a step that raises leaves it alone; a successful step met no failing
  query.
\<close>

definition refines :: "'a tx \<Rightarrow> 'a tx \<Rightarrow> bool" where
  "refines m m0 \<longleftrightarrow> (\<forall>c x c'. m c = (Inr x, c') \<longrightarrow> m0 c = (Inr x, c'))"

definition keeps :: "'a tx \<Rightarrow> bool" where
  "keeps m \<longleftrightarrow> (\<forall>c r c'. m c = (r, c') \<longrightarrow> committed c' = committed c)"

definition atomic :: "'a tx \<Rightarrow> bool" where
  "atomic m \<longleftrightarrow> (\<forall>c e c'. m c = (Inl e, c') \<longrightarrow> committed c' = committed c)"


text \<open>
  The scrim ids a log reports as found by the polling cycle, in order; and the property of
  a transaction step of not adding to them.
\<close>

fun found_ids :: "log_entry list \<Rightarrow> int list" where
  "found_ids [] = []"
| "found_ids (Info_found_unprocessed i # lg) = i # found_ids lg"
| "found_ids (_ # lg) = found_ids lg"

definition quiet :: "'a tx \<Rightarrow> bool" where
  "quiet m \<longleftrightarrow> (\<forall>c r c'. m c = (r, c') \<longrightarrow> found_ids (logs c') = found_ids (logs c))"

section \<open>Example databases\<close>

text \<open>
  A completed Academy scrim won by team 1, with player 10 on team 1, player 20 on team 2
  and player 30 without stats; no rating rows yet; the participants query returns its
  rows in table order. \<open>ex_skip\<close> has stats for team 1 only, \<open>ex_done\<close> is already
  processed.
\<close>

definition ex_scrim :: scrim where
  "ex_scrim = \<lparr>scrim_id = 1, status = ''completed'', scrim_league = Academy,
               winner_team = Some 1, elo_processed = Some False\<rparr>"

definition ex_db :: db where
  "ex_db = \<lparr>scrims = [ex_scrim],
     scrim_players = [\<lparr>sp_scrim_id = 1, sp_player_id = 10\<rparr>, \<lparr>sp_scrim_id = 1, sp_player_id = 20\<rparr>,
                      \<lparr>sp_scrim_id = 1, sp_player_id = 30\<rparr>],
     match_player_stats = [\<lparr>mps_scrim_id = 1, mps_player_id = 10, mps_team_id = 1\<rparr>,
                           \<lparr>mps_scrim_id = 1, mps_player_id = 20, mps_team_id = 2\<rparr>],
     elo_ratings = [], elo_history = [], row_rank = (\<lambda>_. 0)\<rparr>"

definition ex_skip :: db where
  "ex_skip = ex_db\<lparr>match_player_stats := [\<lparr>mps_scrim_id = 1, mps_player_id = 10, mps_team_id = 1\<rparr>]\<rparr>"

definition ex_done :: db where
  "ex_done = ex_db\<lparr>scrims := [ex_scrim\<lparr>elo_processed := Some True\<rparr>]\<rparr>"

text \<open>
  \<open>ex_uneven\<close>: the same scrim with players 10 and 11 (rated 600 and 1400) on team 1
  and player 20 (unrated) on team 2. \<open>ex_two\<close>: two completed unprocessed scrims without
  participants, and a failure schedule that rejects the first query of the call on scrim 1.
\<close>

definition ex_uneven :: db where
  "ex_uneven = \<lparr>scrims = [ex_scrim],
     scrim_players = [\<lparr>sp_scrim_id = 1, sp_player_id = 10\<rparr>, \<lparr>sp_scrim_id = 1, sp_player_id = 11\<rparr>,
                      \<lparr>sp_scrim_id = 1, sp_player_id = 20\<rparr>],
     match_player_stats = [\<lparr>mps_scrim_id = 1, mps_player_id = 10, mps_team_id = 1\<rparr>,
                           \<lparr>mps_scrim_id = 1, mps_player_id = 11, mps_team_id = 1\<rparr>,
                           \<lparr>mps_scrim_id = 1, mps_player_id = 20, mps_team_id = 2\<rparr>],
     elo_ratings = [\<lparr>er_player_id = 10, er_league = Academy, rating = 600, wins = 0, losses = 0\<rparr>,
                    \<lparr>er_player_id = 11, er_league = Academy, rating = 1400, wins = 0, losses = 0\<rparr>],
     elo_history = [], row_rank = (\<lambda>_. 0)\<rparr>"

definition ex_two :: db where
  "ex_two = \<lparr>scrims = [ex_scrim, ex_scrim\<lparr>scrim_id := 2\<rparr>], scrim_players = [],
     match_player_stats = [], elo_ratings = [], elo_history = [], row_rank = (\<lambda>_. 0)\<rparr>"

definition ex_faults :: "int \<Rightarrow> nat set" where
  "ex_faults i = (if i = 1 then {0} else {})"





section \<open>Fault-free runs\<close>

lemma bind_tx_apply: "bind_tx m f c = (case m c of (Inl e, c') \<Rightarrow> (Inl e, c') | (Inr x, c') \<Rightarrow> f x c')"
  by (simp add: bind_tx_def)

lemma query_read_ok: "query_read {} q c = (Inr (q (work c)), c\<lparr>qn := qn c + 1\<rparr>)"
  by (simp add: query_read_def)

lemma query_write_ok:
  "query_write {} q c = (Inr (), c\<lparr>work := q (work c), qn := qn c + 1, nwrites := nwrites c + 1\<rparr>)"
  by (simp add: query_write_def)

lemma fetch_ratings_ok:
  "fetch_ratings {} l ps m c = (Inr (fetched l (work c) ps m), c\<lparr>qn := qn c + length ps\<rparr>)"
proof (induction ps arbitrary: m c)
  case Nil
  show ?case by (simp add: return_tx_def fetched_def)
next
  case (Cons p ps)
  show ?case
    by (cases "select_rating (player_id p) l (work c)")
       (auto simp: bind_tx_apply query_read_ok Cons.IH rating_or_default_def fetched_def fun_eq_iff)
qed

lemma query_begin_ok: "query_begin {} c = (Inr (), c\<lparr>qn := qn c + 1\<rparr>)"
  by (simp add: query_begin_def)

lemma query_commit_ok: "query_commit {} c = (Inr (), c\<lparr>committed := work c, qn := qn c + 1\<rparr>)"
  by (simp add: query_commit_def)

lemma query_rollback_ok: "query_rollback {} c = (Inr (), c\<lparr>work := committed c, qn := qn c + 1\<rparr>)"
  by (simp add: query_rollback_def)

lemma team_sum_ok:
  "\<forall>p\<in>set team. ratings (player_id p) = Some (g (player_id p)) \<Longrightarrow>
   team_sum ratings team acc = Inr (acc + sum_list (map (\<lambda>p. rating (g (player_id p))) team))"
  by (induction team arbitrary: acc) (simp_all add: ratings_get_def)

lemma team_avg_fetched:
  "set team \<subseteq> set ps \<Longrightarrow> team_avg (fetched l d ps m) team = Inr (avg_rating l d team)"
proof -
  assume sub: "set team \<subseteq> set ps"
  have "\<forall>p\<in>set team. fetched l d ps m (player_id p) = Some (rating_or_default (player_id p) l d)"
    using sub by (auto simp: fetched_def)
  from team_sum_ok [OF this, of 0] show ?thesis
    by (simp add: team_avg_def avg_rating_def)
qed

lemma update_team_ok:
  "\<forall>p\<in>set team. ratings (player_id p) = Some (rating_or_default (player_id p) (scrim_league s) d0) \<Longrightarrow>
   update_team {} s ratings opp res team c =
     (Inr (), c\<lparr>work := fold (rate_player s d0 opp res) team (work c),
                 qn := qn c + 2 * length team, nwrites := nwrites c + 2 * length team\<rparr>)"
proof (induction team arbitrary: c)
  case Nil
  show ?case by (simp add: return_tx_def)
next
  case (Cons p team)
  then show ?case
    by (simp add: bind_tx_apply lift_def ratings_get_def updatePlayerRating_def query_write_ok
        rate_player_def Let_def)
qed

lemma lift_apply: "lift r c = (r, c)"
  by (simp add: lift_def)

lemma processMatch_already:
  assumes "select_scrim scrimId d = Some s" "status s = ''completed''" "truthy_bool (elo_processed s)"
  shows "processMatch {} d scrimId =
     \<lparr>raised = None, db_after = d, pending = d, logged = [Info_already_processed scrimId], queries = 3, writes = 0\<rparr>"
  using assms
  by (simp add: processMatch_def processMatch_on_def try_body_def connect_def released_def bind_tx_apply
      query_begin_ok query_read_ok query_rollback_ok logger_def)

lemma processMatch_skipped:
  assumes "select_scrim scrimId d = Some s" "status s = ''completed''"
    "\<not> truthy_bool (elo_processed s)" "truthy_int (winner_team s)"
    "team_of 1 d scrimId = [] \<or> team_of 2 d scrimId = []"
  shows "processMatch {} d scrimId =
     \<lparr>raised = None, db_after = d, pending = d, logged = [Warn_missing_teams scrimId],
      queries = length (select_players scrimId d) + 4, writes = 0\<rparr>"
  using assms
  by (simp add: processMatch_def processMatch_on_def try_body_def rate_teams_def connect_def released_def bind_tx_apply
      query_begin_ok query_read_ok query_rollback_ok logger_def fetch_ratings_ok team_of_def)

lemma processMatch_processed:
  assumes "select_scrim scrimId d = Some s" "status s = ''completed''"
    "\<not> truthy_bool (elo_processed s)" "truthy_int (winner_team s)"
    "team_of 1 d scrimId \<noteq> []" "team_of 2 d scrimId \<noteq> []"
  shows "processMatch {} d scrimId =
     \<lparr>raised = None, db_after = processed_db d scrimId s, pending = processed_db d scrimId s, logged = [Info_processed scrimId],
      queries = length (select_players scrimId d)
                + 2 * (length (team_of 1 d scrimId) + length (team_of 2 d scrimId)) + 5,
      writes = 2 * (length (team_of 1 d scrimId) + length (team_of 2 d scrimId)) + 1\<rparr>"
proof -
  let ?ps = "select_players scrimId d"
  let ?l = "scrim_league s"
  let ?m = "fetched ?l d ?ps Map.empty"
  have a1: "team_avg ?m (team_of 1 d scrimId) = Inr (avg_rating ?l d (team_of 1 d scrimId))"
    by (rule team_avg_fetched) (auto simp: team_of_def)
  have a2: "team_avg ?m (team_of 2 d scrimId) = Inr (avg_rating ?l d (team_of 2 d scrimId))"
    by (rule team_avg_fetched) (auto simp: team_of_def)
  have m: "\<forall>p\<in>set (team_of t d scrimId). ?m (player_id p) = Some (rating_or_default (player_id p) ?l d)" for t
    by (auto simp: fetched_def team_of_def)
  note u = update_team_ok [where ratings = ?m and s = s and ?d0.0 = d, OF m]
  have rt: "rate_teams {} scrimId s ?ps ?m c =
      (Inr (), c\<lparr>committed := mark_processed scrimId
              (fold (rate_player s d (avg_rating ?l d (team_of 1 d scrimId)) (team_result s 2)) (team_of 2 d scrimId)
                (fold (rate_player s d (avg_rating ?l d (team_of 2 d scrimId)) (team_result s 1)) (team_of 1 d scrimId) (work c))),
            work := mark_processed scrimId
              (fold (rate_player s d (avg_rating ?l d (team_of 1 d scrimId)) (team_result s 2)) (team_of 2 d scrimId)
                (fold (rate_player s d (avg_rating ?l d (team_of 2 d scrimId)) (team_result s 1)) (team_of 1 d scrimId) (work c))),
            qn := qn c + 2 * (length (team_of 1 d scrimId) + length (team_of 2 d scrimId)) + 2,
            nwrites := nwrites c + 2 * (length (team_of 1 d scrimId) + length (team_of 2 d scrimId)) + 1,
            logs := logs c @ [Info_processed scrimId]\<rparr>)" for c
    using assms(5,6) a1 a2
    by (simp add: rate_teams_def team_of_def [symmetric] team_result_def [symmetric] bind_tx_apply lift_apply u
        query_write_ok query_commit_ok logger_def Let_def)
  show ?thesis
    using assms(1-4)
    by (simp add: processMatch_def processMatch_on_def try_body_def connect_def released_def bind_tx_apply
      query_begin_ok query_read_ok fetch_ratings_ok rt processed_db_def Let_def)
qed

section \<open>The writes of a successful run\<close>

lemma find_append: "find P (xs @ ys) = (case find P xs of None \<Rightarrow> find P ys | Some x \<Rightarrow> Some x)"
  by (induction xs) auto

lemma find_None_ex: "find P xs = None \<longleftrightarrow> \<not> list_ex P xs"
  by (induction xs) auto

lemma find_map_upd:
  "(\<And>x. P (f x) = P x) \<Longrightarrow> find P (map (\<lambda>x. if P x then f x else x) xs) = map_option f (find P xs)"
  by (induction xs) auto

lemma find_map_other:
  "(\<And>x. Q x \<Longrightarrow> \<not> P x \<and> \<not> P (f x)) \<Longrightarrow> find P (map (\<lambda>x. if Q x then f x else x) xs) = find P xs"
  by (induction xs) auto

lemma bump_key [simp]: "er_player_id (bump n w r) = er_player_id r" "er_league (bump n w r) = er_league r"
  by (simp_all add: bump_def)

lemma upsert_rating_bump:
  "upsert_rating p l n w d =
     (if list_ex (\<lambda>r. er_player_id r = p \<and> er_league r = l) (elo_ratings d)
      then d\<lparr>elo_ratings := map (\<lambda>r. if er_player_id r = p \<and> er_league r = l then bump n w r else r)
                               (elo_ratings d)\<rparr>
      else d\<lparr>elo_ratings := elo_ratings d @
             [bump n w \<lparr>er_player_id = p, er_league = l, rating = 1000, wins = 0, losses = 0\<rparr>]\<rparr>)"
  by (simp add: upsert_rating_def bump_def)

lemma select_rating_upsert_same:
  "select_rating p l (upsert_rating p l n w d) = Some (bump n w (rating_or_default p l d))"
proof (cases "list_ex (\<lambda>r. er_player_id r = p \<and> er_league r = l) (elo_ratings d)")
  case True
  then obtain r where r: "find (\<lambda>r. er_player_id r = p \<and> er_league r = l) (elo_ratings d) = Some r"
    using find_None_ex [of "\<lambda>r. er_player_id r = p \<and> er_league r = l" "elo_ratings d"] by auto
  have "find (\<lambda>r. er_player_id r = p \<and> er_league r = l)
          (map (\<lambda>r. if er_player_id r = p \<and> er_league r = l then bump n w r else r) (elo_ratings d))
        = map_option (bump n w) (find (\<lambda>r. er_player_id r = p \<and> er_league r = l) (elo_ratings d))"
    by (rule find_map_upd) simp
  with True r show ?thesis
    by (simp add: select_rating_def upsert_rating_bump rating_or_default_def)
next
  case False
  then have "find (\<lambda>r. er_player_id r = p \<and> er_league r = l) (elo_ratings d) = None"
    by (simp add: find_None_ex)
  with False show ?thesis
    by (simp add: select_rating_def upsert_rating_bump rating_or_default_def find_append)
qed

lemma select_rating_upsert_other:
  "q \<noteq> p \<or> l' \<noteq> l \<Longrightarrow> select_rating q l' (upsert_rating p l n w d) = select_rating q l' d"
proof -
  assume ne: "q \<noteq> p \<or> l' \<noteq> l"
  have m: "find (\<lambda>r. er_player_id r = q \<and> er_league r = l')
          (map (\<lambda>r. if er_player_id r = p \<and> er_league r = l then bump n w r else r) (elo_ratings d))
        = find (\<lambda>r. er_player_id r = q \<and> er_league r = l') (elo_ratings d)"
    by (rule find_map_other) (use ne in auto)
  have a: "find (\<lambda>r. er_player_id r = q \<and> er_league r = l')
          (elo_ratings d @ [bump n w \<lparr>er_player_id = p, er_league = l, rating = 1000, wins = 0, losses = 0\<rparr>])
        = find (\<lambda>r. er_player_id r = q \<and> er_league r = l') (elo_ratings d)"
    using ne by (auto simp: find_append split: option.splits)
  show ?thesis
    by (simp add: select_rating_def upsert_rating_bump m a)
qed

lemma rows_upsert_other:
  "q \<noteq> p \<Longrightarrow> filter (\<lambda>r. er_player_id r = q) (elo_ratings (upsert_rating p l n w d))
     = filter (\<lambda>r. er_player_id r = q) (elo_ratings d)"
proof -
  assume ne: "q \<noteq> p"
  have "filter (\<lambda>r. er_player_id r = q)
          (map (\<lambda>r. if er_player_id r = p \<and> er_league r = l then bump n w r else r) xs)
        = filter (\<lambda>r. er_player_id r = q) xs" for xs
    using ne by (induction xs) auto
  then show ?thesis
    using ne by (simp add: upsert_rating_bump)
qed

lemma rate_player_fields:
  "scrims (rate_player s d0 opp res p d) = scrims d"
  "scrim_players (rate_player s d0 opp res p d) = scrim_players d"
  "match_player_stats (rate_player s d0 opp res p d) = match_player_stats d"
  "row_rank (rate_player s d0 opp res p d) = row_rank d"
  "elo_history (rate_player s d0 opp res p d) = elo_history d @ [history_entry s d0 opp res p]"
  by (simp_all add: rate_player_def Let_def insert_history_def upsert_rating_bump history_entry_def)

lemma fold_rate_fields:
  "scrims (fold (rate_player s d0 opp res) team d) = scrims d"
  "scrim_players (fold (rate_player s d0 opp res) team d) = scrim_players d"
  "match_player_stats (fold (rate_player s d0 opp res) team d) = match_player_stats d"
  "row_rank (fold (rate_player s d0 opp res) team d) = row_rank d"
  "elo_history (fold (rate_player s d0 opp res) team d)
     = elo_history d @ map (history_entry s d0 opp res) team"
  by (induction team arbitrary: d) (simp_all add: rate_player_fields)

lemma select_rating_rate_player:
  "select_rating q l (rate_player s d0 opp res p d) =
     (if q = player_id p \<and> l = scrim_league s
      then Some (bump (calculateNewRating
              (real_of_int (rating (rating_or_default (player_id p) (scrim_league s) d0)))
              opp (real_of_int res)) (res = 1) (rating_or_default q l d))
      else select_rating q l d)"
proof -
  have h: "select_rating q l (insert_history a b c e d') = select_rating q l d'" for a b c e d'
    by (simp add: select_rating_def insert_history_def)
  show ?thesis
    by (auto simp: rate_player_def Let_def h select_rating_upsert_same select_rating_upsert_other)
qed

lemma rows_rate_player:
  "q \<noteq> player_id p \<Longrightarrow>
   filter (\<lambda>r. er_player_id r = q) (elo_ratings (rate_player s d0 opp res p d))
     = filter (\<lambda>r. er_player_id r = q) (elo_ratings d)"
  using rows_upsert_other [of q "player_id p"]
  by (simp add: rate_player_def Let_def insert_history_def)

lemma rows_fold_rate:
  "q \<notin> player_id ` set team \<Longrightarrow>
   filter (\<lambda>r. er_player_id r = q) (elo_ratings (fold (rate_player s d0 opp res) team d))
     = filter (\<lambda>r. er_player_id r = q) (elo_ratings d)"
  by (induction team arbitrary: d) (simp_all add: rows_rate_player)

lemma select_rating_fold_other:
  "q \<notin> player_id ` set team \<Longrightarrow>
   select_rating q l (fold (rate_player s d0 opp res) team d) = select_rating q l d"
  by (induction team arbitrary: d) (simp_all add: select_rating_rate_player)

lemma select_rating_fold_member:
  "distinct (map player_id team) \<Longrightarrow> q \<in> player_id ` set team \<Longrightarrow>
   select_rating q (scrim_league s) (fold (rate_player s d0 opp res) team d) =
     Some (bump (calculateNewRating
              (real_of_int (rating (rating_or_default q (scrim_league s) d0)))
              opp (real_of_int res)) (res = 1) (rating_or_default q (scrim_league s) d))"
proof (induction team arbitrary: d)
  case Nil
  then show ?case by simp
next
  case (Cons p team)
  show ?case
  proof (cases "q = player_id p")
    case True
    with Cons.prems have "q \<notin> player_id ` set team" by auto
    with True show ?thesis
      by (simp add: select_rating_fold_other select_rating_rate_player)
  next
    case False
    with Cons.prems have "q \<in> player_id ` set team" "distinct (map player_id team)" by auto
    with False Cons.IH show ?thesis
      by (simp add: rating_or_default_def select_rating_rate_player)
  qed
qed

text \<open>Sorting by rank loses no order: every arrangement of distinct rows is one.\<close>

lemma rank_exists:
  "distinct ys \<Longrightarrow> \<exists>k :: 'a \<Rightarrow> nat. sorted (map k ys) \<and> inj_on k (set ys)"
proof (induction ys)
  case Nil
  then show ?case by simp
next
  case (Cons y ys)
  then obtain k :: "'a \<Rightarrow> nat" where k: "sorted (map k ys)" "inj_on k (set ys)" by auto
  let ?k = "\<lambda>x. if x = y then 0 else Suc (k x)"
  from Cons.prems have m: "map ?k ys = map (Suc \<circ> k) ys" by auto
  have "sorted (map (Suc \<circ> k) ys)"
    using k(1) by (simp add: sorted_wrt_map sorted_wrt_iff_nth_less)
  then have "sorted (map ?k ys)" by (simp only: m)
  then have "sorted (map ?k (y # ys))" by simp
  moreover have "inj_on ?k (set (y # ys))"
    using k(2) by (auto simp: inj_on_def)
  ultimately show ?case by blast
qed

lemma rank_for_any_order:
  assumes "distinct xs" and "distinct ys" and "set ys = set xs"
  shows "\<exists>k :: 'a \<Rightarrow> nat. sort_key k xs = ys"
proof -
  from rank_exists [OF assms(2)] obtain k :: "'a \<Rightarrow> nat"
    where k: "sorted (map k ys)" "inj_on k (set ys)" by blast
  have "map k (sort_key k xs) = map k ys"
  proof (rule sorted_distinct_set_unique)
    show "sorted (map k (sort_key k xs))" by (rule sorted_sort_key)
    show "distinct (map k (sort_key k xs))"
      using assms k(2) by (simp add: distinct_map)
    show "sorted (map k ys)" by (rule k(1))
    show "distinct (map k ys)" using assms(2) k(2) by (simp add: distinct_map)
    show "set (map k (sort_key k xs)) = set (map k ys)" using assms(3) by simp
  qed
  moreover have "inj_on k (set (sort_key k xs) \<union> set ys)"
    using k(2) assms(3) by simp
  ultimately have "sort_key k xs = ys"
    by (simp add: inj_on_map_eq_map)
  then show ?thesis by blast
qed

lemma distinct_team: "distinct (map player_id (team_of t d scrimId))"
proof -
  have "distinct (select_players scrimId d)" by (simp add: select_players_def)
  then have "distinct (team_of t d scrimId)" by (simp add: team_of_def)
  moreover have "inj_on player_id (set (team_of t d scrimId))"
    by (auto simp: inj_on_def team_of_def)
  ultimately show ?thesis by (simp add: distinct_map)
qed

lemma team_member: "q \<in> player_id ` set (team_of t d scrimId)
    \<longleftrightarrow> \<lparr>player_id = q, team_id = Some t\<rparr> \<in> set (select_players scrimId d)"
proof
  assume "q \<in> player_id ` set (team_of t d scrimId)"
  then obtain p where p: "p \<in> set (select_players scrimId d)" "team_id p = Some t" "player_id p = q"
    by (auto simp: team_of_def)
  have "p = \<lparr>player_id = player_id p, team_id = team_id p\<rparr>" by simp
  with p have "p = \<lparr>player_id = q, team_id = Some t\<rparr>" by simp
  with p show "\<lparr>player_id = q, team_id = Some t\<rparr> \<in> set (select_players scrimId d)" by simp
next
  assume "\<lparr>player_id = q, team_id = Some t\<rparr> \<in> set (select_players scrimId d)"
  then have "\<lparr>player_id = q, team_id = Some t\<rparr> \<in> set (team_of t d scrimId)"
    by (simp add: team_of_def)
  then show "q \<in> player_id ` set (team_of t d scrimId)" by force
qed

lemma mark_processed_fields:
  "scrim_players (mark_processed i d) = scrim_players d"
  "match_player_stats (mark_processed i d) = match_player_stats d"
  "row_rank (mark_processed i d) = row_rank d"
  "elo_ratings (mark_processed i d) = elo_ratings d"
  "elo_history (mark_processed i d) = elo_history d"
  by (simp_all add: mark_processed_def)

lemma select_rating_mark: "select_rating q l (mark_processed i d) = select_rating q l d"
  by (simp add: select_rating_def mark_processed_def)

lemma select_scrim_mark:
  "select_scrim j (mark_processed i d) =
     (if j = i then map_option (\<lambda>s. s\<lparr>elo_processed := Some True\<rparr>) (select_scrim j d)
      else select_scrim j d)"
proof (cases "j = i")
  case True
  have "find (\<lambda>s. scrim_id s = i)
          (map (\<lambda>s. if scrim_id s = i then s\<lparr>elo_processed := Some True\<rparr> else s) (scrims d))
        = map_option (\<lambda>s. s\<lparr>elo_processed := Some True\<rparr>) (find (\<lambda>s. scrim_id s = i) (scrims d))"
    by (rule find_map_upd) simp
  with True show ?thesis by (simp add: select_scrim_def mark_processed_def)
next
  case False
  have "find (\<lambda>s. scrim_id s = j)
          (map (\<lambda>s. if scrim_id s = i then s\<lparr>elo_processed := Some True\<rparr> else s) (scrims d))
        = find (\<lambda>s. scrim_id s = j) (scrims d)"
    by (rule find_map_other) (use False in auto)
  with False show ?thesis by (simp add: select_scrim_def mark_processed_def)
qed

lemma select_players_cong:
  "scrim_players d' = scrim_players d \<Longrightarrow> match_player_stats d' = match_player_stats d \<Longrightarrow>
   row_rank d' = row_rank d \<Longrightarrow> select_players i d' = select_players i d"
  by (simp add: select_players_def joined_rows_def [abs_def])

lemma processed_db_players: "select_players i (processed_db d scrimId s) = select_players i d"
  by (rule select_players_cong)
     (simp_all add: processed_db_def Let_def mark_processed_fields fold_rate_fields)

lemma processed_db_scrim:
  "select_scrim j (processed_db d scrimId s) =
     (if j = scrimId then map_option (\<lambda>s. s\<lparr>elo_processed := Some True\<rparr>) (select_scrim j d)
      else select_scrim j d)"
proof -
  have "select_scrim k (fold (rate_player s d0 a r) team d') = select_scrim k d'" for k d0 a r team d'
    by (simp add: select_scrim_def fold_rate_fields)
  then show ?thesis
    by (simp add: processed_db_def Let_def select_scrim_mark)
qed

lemma processed_db_history:
  "elo_history (processed_db d scrimId s) =
     elo_history d
     @ map (history_entry s d (avg_rating (scrim_league s) d (team_of 2 d scrimId)) (team_result s 1))
         (team_of 1 d scrimId)
     @ map (history_entry s d (avg_rating (scrim_league s) d (team_of 1 d scrimId)) (team_result s 2))
         (team_of 2 d scrimId)"
  by (simp add: processed_db_def Let_def mark_processed_fields fold_rate_fields)

lemma processed_db_rating1:
  assumes "\<lparr>player_id = p, team_id = Some 1\<rparr> \<in> set (select_players scrimId d)"
    and "\<lparr>player_id = p, team_id = Some 2\<rparr> \<notin> set (select_players scrimId d)"
  shows "select_rating p (scrim_league s) (processed_db d scrimId s) =
     Some (bump (new_rating_of d scrimId s 1 p) (team_result s 1 = 1)
             (rating_or_default p (scrim_league s) d))"
  using assms
  by (simp add: processed_db_def Let_def select_rating_mark select_rating_fold_other
      select_rating_fold_member distinct_team team_member new_rating_of_def)

lemma processed_db_rating2:
  assumes "\<lparr>player_id = p, team_id = Some 2\<rparr> \<in> set (select_players scrimId d)"
    and "\<lparr>player_id = p, team_id = Some 1\<rparr> \<notin> set (select_players scrimId d)"
  shows "select_rating p (scrim_league s) (processed_db d scrimId s) =
     Some (bump (new_rating_of d scrimId s 2 p) (team_result s 2 = 1)
             (rating_or_default p (scrim_league s) d))"
  using assms
  by (simp add: processed_db_def Let_def select_rating_mark select_rating_fold_other
      select_rating_fold_member distinct_team team_member new_rating_of_def rating_or_default_def)

lemma processed_db_unrated:
  assumes "\<lparr>player_id = p, team_id = Some 1\<rparr> \<notin> set (select_players scrimId d)"
    and "\<lparr>player_id = p, team_id = Some 2\<rparr> \<notin> set (select_players scrimId d)"
  shows "filter (\<lambda>r. er_player_id r = p) (elo_ratings (processed_db d scrimId s))
       = filter (\<lambda>r. er_player_id r = p) (elo_ratings d)"
    and "filter (\<lambda>h. eh_player_id h = p) (elo_history (processed_db d scrimId s))
       = filter (\<lambda>h. eh_player_id h = p) (elo_history d)"
proof -
  from assms have n: "p \<notin> player_id ` set (team_of 1 d scrimId)" "p \<notin> player_id ` set (team_of 2 d scrimId)"
    by (simp_all add: team_member)
  show "filter (\<lambda>r. er_player_id r = p) (elo_ratings (processed_db d scrimId s))
       = filter (\<lambda>r. er_player_id r = p) (elo_ratings d)"
    using n by (simp add: processed_db_def Let_def mark_processed_fields rows_fold_rate)
  have "filter (\<lambda>h. eh_player_id h = p) (map (history_entry s d a r) team) = []"
    if "p \<notin> player_id ` set team" for a r team
    using that by (induction team) (auto simp: history_entry_def)
  with n show "filter (\<lambda>h. eh_player_id h = p) (elo_history (processed_db d scrimId s))
       = filter (\<lambda>h. eh_player_id h = p) (elo_history d)"
    by (simp add: processed_db_history)
qed

section \<open>Runs with injected failures\<close>

lemma refines_bind:
  "refines m m0 \<Longrightarrow> (\<And>x. refines (f x) (f0 x)) \<Longrightarrow> refines (bind_tx m f) (bind_tx m0 f0)"
  by (auto simp: refines_def bind_tx_def split: prod.splits sum.splits)

lemma refines_refl: "refines m m"
  by (simp add: refines_def)

lemma refines_queries:
  "refines (query_read F q) (query_read {} q)"
  "refines (query_write F w) (query_write {} w)"
  "refines (query_begin F) (query_begin {})"
  "refines (query_commit F) (query_commit {})"
  "refines (query_rollback F) (query_rollback {})"
  by (auto simp: refines_def query_read_def query_write_def query_begin_def query_commit_def
      query_rollback_def split: if_splits)

lemma refines_fetch: "refines (fetch_ratings F l ps m) (fetch_ratings {} l ps m)"
  by (induction ps arbitrary: m)
     (auto intro!: refines_bind refines_queries refines_refl split: option.split)

lemma refines_update: "refines (update_team F s rs a t team) (update_team {} s rs a t team)"
  by (induction team)
     (auto intro!: refines_bind refines_queries refines_refl simp: updatePlayerRating_def)

lemma refines_rate: "refines (rate_teams F i s ps rs) (rate_teams {} i s ps rs)"
  unfolding rate_teams_def Let_def
  by (auto intro!: refines_bind refines_queries refines_refl refines_update)

lemma refines_try: "refines (try_body F i) (try_body {} i)"
  unfolding try_body_def
  by (auto intro!: refines_bind refines_queries refines_refl refines_fetch refines_rate
      split: option.split)

lemma keeps_bind: "keeps m \<Longrightarrow> (\<And>x. keeps (f x)) \<Longrightarrow> keeps (bind_tx m f)"
  by (fastforce simp: keeps_def bind_tx_def split: prod.splits sum.splits)

lemma keeps_basic:
  "keeps (query_read F q)" "keeps (query_write F w)" "keeps (query_begin F)"
  "keeps (query_rollback F)" "keeps (logger e)" "keeps (lift r)" "keeps (throw x)"
  "keeps (return_tx y)"
  by (auto simp: keeps_def query_read_def query_write_def query_begin_def query_rollback_def
      logger_def lift_def throw_def return_tx_def split: if_splits)

lemma keeps_fetch: "keeps (fetch_ratings F l ps m)"
  by (induction ps arbitrary: m) (auto intro!: keeps_bind keeps_basic split: option.split)

lemma keeps_update: "keeps (update_team F s rs a t team)"
  by (induction team) (auto intro!: keeps_bind keeps_basic simp: updatePlayerRating_def)

lemma atomic_bind: "keeps m \<Longrightarrow> (\<And>x. atomic (f x)) \<Longrightarrow> atomic (bind_tx m f)"
  by (fastforce simp: keeps_def atomic_def bind_tx_def split: prod.splits sum.splits)

lemma keeps_atomic: "keeps m \<Longrightarrow> atomic m"
  by (auto simp: keeps_def atomic_def)

lemma atomic_commit: "atomic (bind_tx (query_commit F) (\<lambda>_. logger e))"
  by (auto simp: atomic_def bind_tx_def query_commit_def logger_def split: if_splits)

lemma atomic_basic: "atomic (query_rollback F)" "atomic (throw x)" "atomic (logger e)"
  by (simp_all add: keeps_atomic keeps_basic)

lemma atomic_rate: "atomic (rate_teams F i s ps rs)"
  unfolding rate_teams_def Let_def
  by (auto intro!: atomic_bind atomic_commit atomic_basic keeps_update keeps_basic)

lemma atomic_try: "atomic (try_body F i)"
  unfolding try_body_def
  by (auto intro!: atomic_bind atomic_rate atomic_basic keeps_fetch keeps_basic
      split: option.split)

lemma keeps_catch: "keeps (catch_block F i e)"
  unfolding catch_block_def by (intro keeps_bind keeps_basic)







lemma catch_block_raises: "\<exists>e' c'. catch_block F i e c = (Inl e', c')"
  by (auto simp: catch_block_def bind_tx_def query_rollback_def logger_def throw_def)

lemma processMatch_success:
  assumes "raised (processMatch F d i) = None"
  shows "processMatch F d i = processMatch {} d i"
proof (cases "try_body F i (connect d)")
  case (Pair r c)
  show ?thesis
  proof (cases r)
    case (Inl e)
    obtain e' c' where "catch_block F i e c = (Inl e', c')"
      using catch_block_raises by blast
    with Pair Inl assms show ?thesis
      by (simp add: processMatch_def processMatch_on_def released_def)
  next
    case (Inr u)
    with Pair refines_try [of F i] have "try_body {} i (connect d) = (Inr u, c)"
      by (simp add: refines_def)
    with Pair Inr show ?thesis
      by (simp add: processMatch_def processMatch_on_def)
  qed
qed

lemma processMatch_failure:
  assumes "raised (processMatch F d i) \<noteq> None"
  shows "db_after (processMatch F d i) = d"
proof (cases "try_body F i (connect d)")
  case (Pair r c)
  show ?thesis
  proof (cases r)
    case (Inl e)
    with Pair atomic_try [of F i] have c: "committed c = d"
      by (simp add: atomic_def connect_def)
    obtain r' c' where rc: "catch_block F i e c = (r', c')" by (cases "catch_block F i e c")
    with keeps_catch [of F i e] have "committed c' = committed c" by (simp add: keeps_def)
    with Pair Inl rc c show ?thesis
      by (simp add: processMatch_def processMatch_on_def released_def)
  next
    case (Inr u)
    with Pair assms show ?thesis
      by (simp add: processMatch_def processMatch_on_def released_def)
  qed
qed


lemma processMatch_not_found:
  assumes "select_scrim i d = None"
  shows "processMatch {} d i =
     \<lparr>raised = Some (Scrim_not_found i), db_after = d, pending = d,
      logged = [Error_processing i (Scrim_not_found i)], queries = 3, writes = 0\<rparr>"
  using assms
  by (simp add: processMatch_def processMatch_on_def try_body_def catch_block_def connect_def released_def bind_tx_apply
      query_begin_ok query_read_ok query_rollback_ok logger_def throw_def)

lemma processMatch_not_completed:
  assumes "select_scrim i d = Some s" "status s \<noteq> ''completed''"
  shows "processMatch {} d i =
     \<lparr>raised = Some (Scrim_not_completed i), db_after = d, pending = d,
      logged = [Error_processing i (Scrim_not_completed i)], queries = 3, writes = 0\<rparr>"
  using assms
  by (simp add: processMatch_def processMatch_on_def try_body_def catch_block_def connect_def released_def bind_tx_apply
      query_begin_ok query_read_ok query_rollback_ok logger_def throw_def)

lemma processMatch_no_winner:
  assumes "select_scrim i d = Some s" "status s = ''completed''"
    "\<not> truthy_bool (elo_processed s)" "\<not> truthy_int (winner_team s)"
  shows "processMatch {} d i =
     \<lparr>raised = Some (No_winner_team i), db_after = d, pending = d,
      logged = [Error_processing i (No_winner_team i)], queries = 3, writes = 0\<rparr>"
  using assms
  by (simp add: processMatch_def processMatch_on_def try_body_def catch_block_def connect_def released_def bind_tx_apply
      query_begin_ok query_read_ok query_rollback_ok logger_def throw_def)

text \<open>Every run ends in one of the six ways.\<close>

lemma processMatch_fault_free_cases:
  obtains
    (not_found) "select_scrim i d = None"
  | (not_completed) s where "select_scrim i d = Some s" "status s \<noteq> ''completed''"
  | (already) s where "select_scrim i d = Some s" "status s = ''completed''" "truthy_bool (elo_processed s)"
  | (no_winner) s where "select_scrim i d = Some s" "status s = ''completed''"
      "\<not> truthy_bool (elo_processed s)" "\<not> truthy_int (winner_team s)"
  | (skipped) s where "select_scrim i d = Some s" "status s = ''completed''"
      "\<not> truthy_bool (elo_processed s)" "truthy_int (winner_team s)"
      "team_of 1 d i = [] \<or> team_of 2 d i = []"
  | (processed) s where "select_scrim i d = Some s" "status s = ''completed''"
      "\<not> truthy_bool (elo_processed s)" "truthy_int (winner_team s)"
      "team_of 1 d i \<noteq> []" "team_of 2 d i \<noteq> []"
  by (cases "select_scrim i d") blast+

lemma processMatch_db_cases:
  "db_after (processMatch F d i) = d \<or>
   (\<exists>s. select_scrim i d = Some s \<and> db_after (processMatch F d i) = processed_db d i s
        \<and> raised (processMatch F d i) = None \<and> logged (processMatch F d i) = [Info_processed i])"
proof (cases "raised (processMatch F d i) = None")
  case False
  then show ?thesis by (simp add: processMatch_failure)
next
  case True
  then have eq: "processMatch F d i = processMatch {} d i" by (rule processMatch_success)
  show ?thesis
  proof (cases i d rule: processMatch_fault_free_cases)
    case not_found
    then show ?thesis by (simp add: eq processMatch_not_found)
  next
    case (not_completed s)
    then show ?thesis by (simp add: eq processMatch_not_completed)
  next
    case (already s)
    then show ?thesis by (simp add: eq processMatch_already)
  next
    case (no_winner s)
    then show ?thesis by (simp add: eq processMatch_no_winner)
  next
    case (skipped s)
    then show ?thesis by (simp add: eq processMatch_skipped)
  next
    case (processed s)
    then show ?thesis by (simp add: eq processMatch_processed)
  qed
qed

lemma processMatch_processed_any:
  assumes "select_scrim i d = Some s" "truthy_bool (elo_processed s)"
  shows "db_after (processMatch F d i) = d \<and> writes (processMatch F d i) = 0"
  using assms
  by (simp add: processMatch_def processMatch_on_def try_body_def catch_block_def connect_def released_def bind_tx_apply
      query_begin_def query_read_def query_rollback_def logger_def throw_def)

section \<open>Evaluating runs on the examples\<close>

lemma ex_db_players:
  "select_players 1 ex_db = [\<lparr>player_id = 10, team_id = Some 1\<rparr>, \<lparr>player_id = 20, team_id = Some 2\<rparr>,
     \<lparr>player_id = 30, team_id = None\<rparr>]"
  by (simp add: select_players_def joined_rows_def ex_db_def)

lemma ex_db_scrim: "select_scrim 1 ex_db = Some ex_scrim"
  by (simp add: select_scrim_def ex_db_def ex_scrim_def)

lemma tx_apply:
  "return_tx x c = (Inr x, c)"
  "throw e c = (Inl e, c)"
  "logger l c = (Inr (), c\<lparr>logs := logs c @ [l]\<rparr>)"
  "query_read F q c = (if qn c \<in> F then (Inl Query_failed, c\<lparr>qn := qn c + 1\<rparr>)
     else (Inr (q (work c)), c\<lparr>qn := qn c + 1\<rparr>))"
  "query_write F w c = (if qn c \<in> F then (Inl Query_failed, c\<lparr>qn := qn c + 1\<rparr>)
     else (Inr (), c\<lparr>work := w (work c), qn := qn c + 1, nwrites := nwrites c + 1\<rparr>))"
  "query_begin F c = (if qn c \<in> F then (Inl Query_failed, c\<lparr>qn := qn c + 1\<rparr>)
     else (Inr (), c\<lparr>qn := qn c + 1\<rparr>))"
  "query_commit F c = (if qn c \<in> F then (Inl Query_failed, c\<lparr>qn := qn c + 1\<rparr>)
     else (Inr (), c\<lparr>committed := work c, qn := qn c + 1\<rparr>))"
  "query_rollback F c = (if qn c \<in> F then (Inl Query_failed, c\<lparr>qn := qn c + 1\<rparr>)
     else (Inr (), c\<lparr>work := committed c, qn := qn c + 1\<rparr>))"
  by (simp_all add: return_tx_def throw_def logger_def query_read_def query_write_def
      query_begin_def query_commit_def query_rollback_def)

lemmas run_defs = processMatch_def processMatch_on_def try_body_def rate_teams_def catch_block_def connect_def
  released_def bind_tx_apply lift_apply tx_apply updatePlayerRating_def team_avg_def
  ratings_get_def truthy_bool_def truthy_int_def Let_def select_rating_def select_scrim_def
  upsert_rating_def insert_history_def mark_processed_def

lemma ex_fail_run:
  "raised (processMatch {10} ex_db 1) = Some Query_failed \<and> writes (processMatch {10} ex_db 1) = 4
   \<and> queries (processMatch {10} ex_db 1) = 12"
  by (simp add: run_defs select_players_def joined_rows_def ex_db_def ex_scrim_def)

lemma ex_fail_try:
  "try_raised {10} ex_db 1 = Some Query_failed" "try_queries {10} ex_db 1 = 11"
  by (simp_all add: try_raised_def try_queries_def run_defs select_players_def joined_rows_def
      ex_db_def ex_scrim_def)

lemma processMatch_rolled_back:
  assumes "try_raised F d i = Some e" and "try_queries F d i \<notin> F"
  shows "raised (processMatch F d i) = Some e \<and> db_after (processMatch F d i) = d
     \<and> pending (processMatch F d i) = d
     \<and> last (logged (processMatch F d i)) = Error_processing i e
     \<and> queries (processMatch F d i) = try_queries F d i + 1"
proof (cases "try_body F i (connect d)")
  case (Pair r c)
  with assms(1) have r: "r = Inl e" by (cases r) (simp_all add: try_raised_def)
  from Pair r atomic_try [of F i] have c: "committed c = d"
    by (simp add: atomic_def connect_def)
  from Pair assms(2) have q: "qn c \<notin> F" by (simp add: try_queries_def)
  from Pair r c q show ?thesis
    by (simp add: processMatch_def processMatch_on_def released_def catch_block_def bind_tx_apply
        query_rollback_def logger_def throw_def try_queries_def)
qed




section \<open>The claims\<close>

lemma select_scrim_id: "select_scrim i d = Some s \<Longrightarrow> scrim_id s = i"
  by (auto simp: select_scrim_def find_Some_iff)

lemma processed_db_rating:
  assumes "t = 1 \<or> t = 2"
    and "\<lparr>player_id = p, team_id = Some t\<rparr> \<in> set (select_players scrimId d)"
    and "\<lparr>player_id = p, team_id = Some (3 - t)\<rparr> \<notin> set (select_players scrimId d)"
  shows "select_rating p (scrim_league s) (processed_db d scrimId s) =
     Some (bump (new_rating_of d scrimId s t p) (team_result s t = 1)
             (rating_or_default p (scrim_league s) d))"
  using assms processed_db_rating1 [of p scrimId d s] processed_db_rating2 [of p scrimId d s]
  by auto

text \<open>
  C7. A completed, unprocessed scrim with a winner but an empty team 1 or team 2: the call
  returns without raising, logs the missing-teams warning, executes no write statement and
  leaves the database as it was, so the scrim is still unprocessed and the polling query
  finds it again exactly when it did before. Under injected failures the database is
  unchanged as well.
\<close>

theorem processMatch_incomplete_teams:
  assumes "select_scrim scrimId d = Some s" and "status s = ''completed''"
    and "\<not> truthy_bool (elo_processed s)" and "truthy_int (winner_team s)"
    and "team_of 1 d scrimId = [] \<or> team_of 2 d scrimId = []"
  shows "raised (processMatch {} d scrimId) = None
     \<and> logged (processMatch {} d scrimId) = [Warn_missing_teams scrimId]
     \<and> writes (processMatch {} d scrimId) = 0
     \<and> db_after (processMatch {} d scrimId) = d
     \<and> select_scrim scrimId (db_after (processMatch {} d scrimId)) = Some s
     \<and> select_unprocessed (db_after (processMatch {} d scrimId)) = select_unprocessed d
     \<and> db_after (processMatch F d scrimId) = d"
proof -
  have "db_after (processMatch F d scrimId) = d"
  proof (cases "raised (processMatch F d scrimId) = None")
    case True
    then have "processMatch F d scrimId = processMatch {} d scrimId"
      by (rule processMatch_success)
    with assms show ?thesis by (simp add: processMatch_skipped)
  next
    case False
    then show ?thesis by (rule processMatch_failure)
  qed
  with assms show ?thesis by (simp add: processMatch_skipped)
qed

lemma ex_skip_players: "select_players 1 ex_skip = [\<lparr>player_id = 10, team_id = Some 1\<rparr>,
    \<lparr>player_id = 20, team_id = None\<rparr>, \<lparr>player_id = 30, team_id = None\<rparr>]"
  by (simp add: select_players_def joined_rows_def ex_skip_def ex_db_def)

lemma ex_skip_scrim: "select_scrim 1 ex_skip = Some ex_scrim"
  by (simp add: select_scrim_def ex_skip_def ex_db_def ex_scrim_def)

theorem processMatch_incomplete_teams_witness:
  "select_scrim 1 ex_skip = Some ex_scrim \<and> team_of 2 ex_skip 1 = []
   \<and> raised (processMatch {} ex_skip 1) = None
   \<and> logged (processMatch {} ex_skip 1) = [Warn_missing_teams 1]
   \<and> writes (processMatch {} ex_skip 1) = 0
   \<and> db_after (processMatch {} ex_skip 1) = ex_skip
   \<and> select_unprocessed (db_after (processMatch {} ex_skip 1)) = [1]"
proof -
  have h: "select_scrim 1 ex_skip = Some ex_scrim" "status ex_scrim = ''completed''"
    "\<not> truthy_bool (elo_processed ex_scrim)" "truthy_int (winner_team ex_scrim)"
    "team_of 1 ex_skip 1 = [] \<or> team_of 2 ex_skip 1 = []"
    by (simp_all add: ex_skip_scrim team_of_def ex_skip_players)
       (simp_all add: ex_scrim_def truthy_bool_def truthy_int_def)
  have u: "select_unprocessed ex_skip = [1]"
    by (simp add: select_unprocessed_def ex_skip_def ex_db_def ex_scrim_def)
  from processMatch_incomplete_teams [OF h, of "{}"] h(1) u show ?thesis
    by (simp add: team_of_def ex_skip_players)
qed

lemma processed_db_scrims: "scrims (processed_db d i s) = scrims (mark_processed i d)"
  by (simp add: processed_db_def Let_def mark_processed_def fold_rate_fields)

lemma processMatch_flag_kept:
  assumes "select_scrim m d = Some s" "truthy_bool (elo_processed s)"
  shows "\<exists>s'. select_scrim m (db_after (processMatch F d i)) = Some s' \<and> truthy_bool (elo_processed s')"
  using processMatch_db_cases [of F d i] assms
  by (auto simp: processed_db_scrim truthy_bool_def)

lemma process_rows_flag_kept:
  assumes "select_scrim m d = Some s" "truthy_bool (elo_processed s)"
  shows "\<exists>s'. select_scrim m (fst (snd (process_rows Fs ids d lg))) = Some s' \<and> truthy_bool (elo_processed s')"
  using assms
proof (induction ids arbitrary: d lg s)
  case Nil
  then show ?case by simp
next
  case (Cons i ids)
  from processMatch_flag_kept [OF Cons.prems, of "Fs i" i]
  obtain s' where s': "select_scrim m (db_after (processMatch (Fs i) d i)) = Some s'"
    "truthy_bool (elo_processed s')" by blast
  show ?case
  proof (cases "raised (processMatch (Fs i) d i)")
    case None
    with Cons.IH [OF s'] show ?thesis by (simp add: Let_def)
  next
    case (Some e)
    with s' show ?thesis by (simp add: Let_def)
  qed
qed

lemma poll_cycle_flag_kept:
  assumes "select_scrim m d = Some s" "truthy_bool (elo_processed s)"
  shows "\<exists>s'. select_scrim m (fst (poll_cycle q Fs d)) = Some s' \<and> truthy_bool (elo_processed s')"
proof (cases q)
  case True
  with assms show ?thesis by (simp add: poll_cycle_def)
next
  case False
  obtain r d' lg where p: "process_rows Fs (select_unprocessed d) d [] = (r, d', lg)"
    by (cases "process_rows Fs (select_unprocessed d) d []") auto
  from process_rows_flag_kept [OF assms, of Fs "select_unprocessed d" "[]"] p
  have "\<exists>s'. select_scrim m d' = Some s' \<and> truthy_bool (elo_processed s')" by simp
  with False p show ?thesis by (cases r) (simp_all add: poll_cycle_def)
qed

text \<open>
  C8. The processed flag is one-way. If the flag of scrim \<open>m\<close> is set, it is still set
  after any \<open>processMatch\<close> call (on any scrim, under any injected failures) and after any
  polling cycle; a call on \<open>m\<close> itself executes no write statement and leaves the database
  unchanged. The only change a call ever makes to the scrims table is to set the flag of
  the scrim it processed, and it makes it only when it returns as processed.
\<close>

theorem processed_flag_one_way:
  "(select_scrim m d = Some s \<and> truthy_bool (elo_processed s) \<longrightarrow>
      (\<exists>s'. select_scrim m (db_after (processMatch F d scrimId)) = Some s'
            \<and> truthy_bool (elo_processed s'))
    \<and> (\<exists>s'. select_scrim m (fst (poll_cycle q Fs d)) = Some s' \<and> truthy_bool (elo_processed s'))
    \<and> db_after (processMatch F d m) = d \<and> writes (processMatch F d m) = 0)
   \<and> (scrims (db_after (processMatch F d scrimId)) = scrims d
       \<or> raised (processMatch F d scrimId) = None
         \<and> logged (processMatch F d scrimId) = [Info_processed scrimId]
         \<and> scrims (db_after (processMatch F d scrimId)) = scrims (mark_processed scrimId d))"
proof -
  have "scrims (db_after (processMatch F d scrimId)) = scrims d
         \<or> raised (processMatch F d scrimId) = None
           \<and> logged (processMatch F d scrimId) = [Info_processed scrimId]
           \<and> scrims (db_after (processMatch F d scrimId)) = scrims (mark_processed scrimId d)"
    using processMatch_db_cases [of F d scrimId] by (auto simp: processed_db_scrims)
  with processMatch_flag_kept [of m d s F scrimId] poll_cycle_flag_kept [of m d s q Fs]
    processMatch_processed_any [of m d s F]
  show ?thesis by blast
qed

lemma ex_done_scrim: "select_scrim 1 ex_done = Some (ex_scrim\<lparr>elo_processed := Some True\<rparr>)"
  by (simp add: select_scrim_def ex_done_def ex_db_def ex_scrim_def)

theorem processed_flag_one_way_witness:
  "select_scrim 1 ex_done = Some (ex_scrim\<lparr>elo_processed := Some True\<rparr>)
   \<and> truthy_bool (elo_processed (ex_scrim\<lparr>elo_processed := Some True\<rparr>))
   \<and> db_after (processMatch {} ex_done 1) = ex_done \<and> writes (processMatch {} ex_done 1) = 0
   \<and> (\<exists>s'. select_scrim 1 (fst (poll_cycle False (\<lambda>_. {}) ex_done)) = Some s'
            \<and> truthy_bool (elo_processed s'))"
proof -
  have h: "select_scrim 1 ex_done = Some (ex_scrim\<lparr>elo_processed := Some True\<rparr>)"
    "truthy_bool (elo_processed (ex_scrim\<lparr>elo_processed := Some True\<rparr>))"
    by (simp_all add: ex_done_scrim truthy_bool_def)
  from processed_flag_one_way [of 1 ex_done "ex_scrim\<lparr>elo_processed := Some True\<rparr>" "{}" 1 False "\<lambda>_. {}"] h
  show ?thesis by simp
qed




lemma ex_db_ready:
  "select_scrim 1 ex_db = Some ex_scrim" "status ex_scrim = ''completed''"
  "\<not> truthy_bool (elo_processed ex_scrim)" "truthy_int (winner_team ex_scrim)"
  "team_of 1 ex_db 1 \<noteq> []" "team_of 2 ex_db 1 \<noteq> []"
  by (simp_all add: ex_db_scrim team_of_def ex_db_players)
     (simp_all add: ex_scrim_def truthy_bool_def truthy_int_def)

lemma calc_even_win: "calculateNewRating 1000 1000 1 = 1016"
  by (simp add: calculateNewRating_def math_round_def)

lemma calc_even_loss: "calculateNewRating 1000 1000 0 = 984"
  by (simp add: calculateNewRating_def math_round_def)

lemma ex_db_empty: "elo_history ex_db = []" "select_rating p Academy ex_db = None"
  by (simp_all add: ex_db_def select_rating_def)

lemma ex_db_teams:
  "team_of 1 ex_db 1 = [\<lparr>player_id = 10, team_id = Some 1\<rparr>]"
  "team_of 2 ex_db 1 = [\<lparr>player_id = 20, team_id = Some 2\<rparr>]"
  by (simp_all add: team_of_def ex_db_players)

lemma ex_scrim_fields:
  "scrim_league ex_scrim = Academy" "scrim_id ex_scrim = 1"
  "team_result ex_scrim 1 = 1" "team_result ex_scrim 2 = 0"
  by (simp_all add: ex_scrim_def team_result_def)

lemma ex_db_avg: "avg_rating Academy ex_db [p] = 1000"
  by (simp add: avg_rating_def rating_or_default_def ex_db_empty)


lemma processMatch_settled:
  assumes "raised (processMatch {} d i) = None"
  shows "db_after (processMatch F (db_after (processMatch {} d i)) i) = db_after (processMatch {} d i)
     \<and> raised (processMatch {} (db_after (processMatch {} d i)) i) = None"
proof (cases i d rule: processMatch_fault_free_cases)
  case not_found
  with assms show ?thesis by (simp add: processMatch_not_found)
next
  case (not_completed s)
  with assms show ?thesis by (simp add: processMatch_not_completed)
next
  case (already s)
  then show ?thesis
    using processMatch_processed_any [of i d s F] by (simp add: processMatch_already)
next
  case (no_winner s)
  with assms show ?thesis by (simp add: processMatch_no_winner)
next
  case (skipped s)
  have "db_after (processMatch F d i) = d"
  proof (cases "raised (processMatch F d i) = None")
    case True
    then have "processMatch F d i = processMatch {} d i" by (rule processMatch_success)
    with skipped show ?thesis by (simp add: processMatch_skipped)
  next
    case False
    then show ?thesis by (rule processMatch_failure)
  qed
  with skipped show ?thesis by (simp add: processMatch_skipped)
next
  case (processed s)
  let ?d1 = "processed_db d i s"
  have s1: "select_scrim i ?d1 = Some (s\<lparr>elo_processed := Some True\<rparr>)"
    using processed(1) by (simp add: processed_db_scrim)
  have t: "truthy_bool (elo_processed (s\<lparr>elo_processed := Some True\<rparr>))"
    "status (s\<lparr>elo_processed := Some True\<rparr>) = ''completed''"
    using processed(2) by (simp_all add: truthy_bool_def)
  from processMatch_processed_any [OF s1 t(1), of F] processMatch_already [OF s1 t(2) t(1)] processed
  show ?thesis by (simp add: processMatch_processed)
qed

lemma processMatch_logged_cases:
  assumes "raised (processMatch {} d i) = None"
  shows "logged (processMatch {} d i) = [Info_processed i]
     \<or> logged (processMatch {} d i) = [Info_already_processed i] \<and> db_after (processMatch {} d i) = d
     \<or> logged (processMatch {} d i) = [Warn_missing_teams i] \<and> db_after (processMatch {} d i) = d"
proof (cases i d rule: processMatch_fault_free_cases)
  case not_found
  with assms show ?thesis by (simp add: processMatch_not_found)
next
  case (not_completed s)
  with assms show ?thesis by (simp add: processMatch_not_completed)
next
  case (already s)
  then show ?thesis by (simp add: processMatch_already)
next
  case (no_winner s)
  with assms show ?thesis by (simp add: processMatch_no_winner)
next
  case (skipped s)
  then show ?thesis by (simp add: processMatch_skipped)
next
  case (processed s)
  then show ?thesis by (simp add: processMatch_processed)
qed

text \<open>
  C5, as the code has it. \<open>processMatch\<close> returns no value: a call that does not raise has
  written exactly one of three log lines (processed; already processed, nothing changed;
  missing teams, nothing changed), and that line is the only trace of which outcome
  occurred. Calling again on the same id is safe: the second call does not raise either,
  and under any injected failures it leaves the database as the first call left it.
\<close>

theorem processMatch_outcomes:
  "raised (processMatch {} d scrimId) = None \<longrightarrow>
     (logged (processMatch {} d scrimId) = [Info_processed scrimId]
      \<or> logged (processMatch {} d scrimId) = [Info_already_processed scrimId]
          \<and> db_after (processMatch {} d scrimId) = d
      \<or> logged (processMatch {} d scrimId) = [Warn_missing_teams scrimId]
          \<and> db_after (processMatch {} d scrimId) = d)
     \<and> raised (processMatch {} (db_after (processMatch {} d scrimId)) scrimId) = None
     \<and> db_after (processMatch F (db_after (processMatch {} d scrimId)) scrimId)
         = db_after (processMatch {} d scrimId)"
  using processMatch_settled [of d scrimId F] processMatch_logged_cases [of d scrimId] by blast

lemma ex_db_run:
  "raised (processMatch {} ex_db 1) = None" "logged (processMatch {} ex_db 1) = [Info_processed 1]"
  by (simp_all add: processMatch_processed [OF ex_db_ready])

theorem processMatch_outcomes_witness:
  "raised (processMatch {} ex_db 1) = None
   \<and> logged (processMatch {} ex_db 1) = [Info_processed 1]
   \<and> raised (processMatch {} (db_after (processMatch {} ex_db 1)) 1) = None
   \<and> db_after (processMatch {10} (db_after (processMatch {} ex_db 1)) 1)
       = db_after (processMatch {} ex_db 1)"
  using processMatch_outcomes [of ex_db 1 "{10}"] ex_db_run by simp

text \<open>
  C5, as stated, fails: on a fresh scrim, on a processed scrim and on a scrim with a
  missing team the call takes the three different paths (the log lines differ), and the
  caller receives the same result from all three.
\<close>

theorem processMatch_outcomes_counterexample:
  "raised (processMatch {} ex_db 1) = raised (processMatch {} ex_done 1)
   \<and> raised (processMatch {} ex_done 1) = raised (processMatch {} ex_skip 1)
   \<and> logged (processMatch {} ex_db 1) = [Info_processed 1]
   \<and> logged (processMatch {} ex_done 1) = [Info_already_processed 1]
   \<and> logged (processMatch {} ex_skip 1) = [Warn_missing_teams 1]"
proof -
  have d: "processMatch {} ex_done 1 = \<lparr>raised = None, db_after = ex_done, pending = ex_done,
      logged = [Info_already_processed 1], queries = 3, writes = 0\<rparr>"
    by (rule processMatch_already [OF ex_done_scrim]) (simp_all add: ex_scrim_def truthy_bool_def)
  have k: "processMatch {} ex_skip 1 = \<lparr>raised = None, db_after = ex_skip, pending = ex_skip,
      logged = [Warn_missing_teams 1], queries = length (select_players 1 ex_skip) + 4, writes = 0\<rparr>"
    by (rule processMatch_skipped [OF ex_skip_scrim])
       (simp_all add: ex_scrim_def truthy_bool_def truthy_int_def team_of_def ex_skip_players)
  show ?thesis by (simp add: d k ex_db_run)
qed

lemma joined_rows_None:
  "\<lparr>player_id = p, team_id = None\<rparr> \<in> set (joined_rows d sp) \<longleftrightarrow>
     sp_player_id sp = p \<and>
     filter (\<lambda>m. sp_player_id sp = mps_player_id m \<and> mps_scrim_id m = sp_scrim_id sp)
       (match_player_stats d) = []"
  by (auto simp: joined_rows_def Let_def)

lemma joined_rows_Some:
  "\<lparr>player_id = p, team_id = Some t\<rparr> \<in> set (joined_rows d sp) \<Longrightarrow>
     sp_player_id sp = p \<and>
     filter (\<lambda>m. sp_player_id sp = mps_player_id m \<and> mps_scrim_id m = sp_scrim_id sp)
       (match_player_stats d) \<noteq> []"
  by (auto simp: joined_rows_def Let_def split: if_splits)

lemma unassigned_on_no_team:
  assumes "\<lparr>player_id = p, team_id = None\<rparr> \<in> set (select_players i d)"
  shows "\<lparr>player_id = p, team_id = Some t\<rparr> \<notin> set (select_players i d)"
proof
  assume "\<lparr>player_id = p, team_id = Some t\<rparr> \<in> set (select_players i d)"
  then obtain sp' where sp': "sp_scrim_id sp' = i"
    "\<lparr>player_id = p, team_id = Some t\<rparr> \<in> set (joined_rows d sp')"
    by (auto simp: select_players_def)
  from assms obtain sp where sp: "sp_scrim_id sp = i"
    "\<lparr>player_id = p, team_id = None\<rparr> \<in> set (joined_rows d sp)"
    by (auto simp: select_players_def)
  from sp have n: "filter (\<lambda>m. p = mps_player_id m \<and> mps_scrim_id m = i) (match_player_stats d) = []"
    by (auto simp: joined_rows_None)
  from joined_rows_Some [OF sp'(2)] sp'(1)
  have "filter (\<lambda>m. p = mps_player_id m \<and> mps_scrim_id m = i) (match_player_stats d) \<noteq> []"
    by auto
  with n show False by simp
qed

text \<open>
  C9, as the code has it. A player listed on exactly one team of a completed, unprocessed
  scrim with a winner and two non-empty teams, and without a rating row in the scrim's
  league: the computation starts from rating 1000 (the history row written for the player
  has old rating 1000), and the rating row the call creates carries the new rating and
  exactly one win or one loss. The default is never stored by itself: a call that raises,
  under any injected failures, leaves the committed database without a row for the
  player, and when the \<open>ROLLBACK\<close> of its \<open>catch\<close> block is accepted it releases the
  client without a row pending.
\<close>

theorem lazy_default_rating:
  assumes "select_scrim scrimId d = Some s" and "status s = ''completed''"
    and "\<not> truthy_bool (elo_processed s)" and "truthy_int (winner_team s)"
    and "team_of 1 d scrimId \<noteq> []" and "team_of 2 d scrimId \<noteq> []"
    and "t = 1 \<or> t = 2"
    and "\<lparr>player_id = p, team_id = Some t\<rparr> \<in> set (select_players scrimId d)"
    and "\<lparr>player_id = p, team_id = Some (3 - t)\<rparr> \<notin> set (select_players scrimId d)"
    and "select_rating p (scrim_league s) d = None"
  shows "raised (processMatch {} d scrimId) = None
     \<and> select_rating p (scrim_league s) (db_after (processMatch {} d scrimId)) =
         Some \<lparr>er_player_id = p, er_league = scrim_league s,
               rating = calculateNewRating 1000
                  (avg_rating (scrim_league s) d (team_of (3 - t) d scrimId))
                  (real_of_int (team_result s t)),
               wins = (if team_result s t = 1 then 1 else 0),
               losses = (if team_result s t = 1 then 0 else 1)\<rparr>
     \<and> \<lparr>eh_player_id = p, eh_scrim_id = scrimId, old_rating = 1000,
         new_rating = calculateNewRating 1000
                  (avg_rating (scrim_league s) d (team_of (3 - t) d scrimId))
                  (real_of_int (team_result s t))\<rparr>
         \<in> set (elo_history (db_after (processMatch {} d scrimId)))
     \<and> (raised (processMatch F d scrimId) \<noteq> None \<longrightarrow>
          select_rating p (scrim_league s) (db_after (processMatch F d scrimId)) = None)
     \<and> (try_raised F d scrimId \<noteq> None \<and> try_queries F d scrimId \<notin> F \<longrightarrow>
          select_rating p (scrim_league s) (pending (processMatch F d scrimId)) = None)"
proof -
  have run: "db_after (processMatch {} d scrimId) = processed_db d scrimId s"
    "raised (processMatch {} d scrimId) = None"
    using assms(1-6) by (simp_all add: processMatch_processed)
  have row: "select_rating p (scrim_league s) (processed_db d scrimId s) =
     Some (bump (new_rating_of d scrimId s t p) (team_result s t = 1)
             (rating_or_default p (scrim_league s) d))"
    using assms(7-9) by (rule processed_db_rating)
  have sid: "scrim_id s = scrimId" using assms(1) by (rule select_scrim_id)
  have mem: "\<lparr>player_id = p, team_id = Some t\<rparr> \<in> set (team_of t d scrimId)"
    using assms(8) by (simp add: team_of_def)
  have hist: "history_entry s d (avg_rating (scrim_league s) d (team_of (3 - t) d scrimId))
      (team_result s t) \<lparr>player_id = p, team_id = Some t\<rparr>
       \<in> set (elo_history (processed_db d scrimId s))"
    using assms(7) mem by (auto simp: processed_db_history)
  have fail: "raised (processMatch F d scrimId) \<noteq> None \<longrightarrow>
          select_rating p (scrim_league s) (db_after (processMatch F d scrimId)) = None"
    using assms(10) by (simp add: processMatch_failure)
  have rolled: "try_raised F d scrimId \<noteq> None \<and> try_queries F d scrimId \<notin> F \<longrightarrow>
          select_rating p (scrim_league s) (pending (processMatch F d scrimId)) = None"
    using assms(10) processMatch_rolled_back [of F d scrimId] by auto
  from row hist fail rolled show ?thesis
    by (simp add: run assms(10) rating_or_default_def new_rating_of_def bump_def
        history_entry_def sid)
qed

theorem lazy_default_rating_witness:
  "select_rating 20 Academy ex_db = None
   \<and> select_rating 20 Academy (db_after (processMatch {} ex_db 1)) =
       Some \<lparr>er_player_id = 20, er_league = Academy, rating = 984, wins = 0, losses = 1\<rparr>
   \<and> \<lparr>eh_player_id = 20, eh_scrim_id = 1, old_rating = 1000, new_rating = 984\<rparr>
       \<in> set (elo_history (db_after (processMatch {} ex_db 1)))
   \<and> raised (processMatch {10} ex_db 1) \<noteq> None
   \<and> select_rating 20 Academy (db_after (processMatch {10} ex_db 1)) = None
   \<and> try_raised {10} ex_db 1 \<noteq> None \<and> try_queries {10} ex_db 1 \<notin> {10}
   \<and> select_rating 20 Academy (pending (processMatch {10} ex_db 1)) = None"
proof -
  have h: "(2::int) = 1 \<or> (2::int) = 2"
    "\<lparr>player_id = 20, team_id = Some 2\<rparr> \<in> set (select_players 1 ex_db)"
    "\<lparr>player_id = 20, team_id = Some (3 - 2)\<rparr> \<notin> set (select_players 1 ex_db)"
    "select_rating 20 (scrim_league ex_scrim) ex_db = None"
    by (simp_all add: ex_db_players ex_scrim_fields ex_db_empty)
  from lazy_default_rating [OF ex_db_ready h, of "{10}"] ex_fail_run ex_fail_try show ?thesis
    by (simp add: ex_scrim_fields ex_db_teams ex_db_avg calc_even_loss ex_db_empty)
qed

text \<open>
  C10. A participant without a team slot, in a completed, unprocessed scrim with a winner
  and two non-empty teams: the call succeeds and marks the scrim processed, the
  participant's rating rows and history rows are the ones from before the call, and every
  later call on the scrim, under any injected failures, leaves the database as it is, so
  the participant is never rated for this scrim.
\<close>

theorem unassigned_participant_excluded:
  assumes "select_scrim scrimId d = Some s" and "status s = ''completed''"
    and "\<not> truthy_bool (elo_processed s)" and "truthy_int (winner_team s)"
    and "team_of 1 d scrimId \<noteq> []" and "team_of 2 d scrimId \<noteq> []"
    and "\<lparr>player_id = p, team_id = None\<rparr> \<in> set (select_players scrimId d)"
  shows "raised (processMatch {} d scrimId) = None
     \<and> logged (processMatch {} d scrimId) = [Info_processed scrimId]
     \<and> filter (\<lambda>r. er_player_id r = p) (elo_ratings (db_after (processMatch {} d scrimId)))
         = filter (\<lambda>r. er_player_id r = p) (elo_ratings d)
     \<and> filter (\<lambda>h. eh_player_id h = p) (elo_history (db_after (processMatch {} d scrimId)))
         = filter (\<lambda>h. eh_player_id h = p) (elo_history d)
     \<and> select_scrim scrimId (db_after (processMatch {} d scrimId))
         = Some (s\<lparr>elo_processed := Some True\<rparr>)
     \<and> db_after (processMatch F (db_after (processMatch {} d scrimId)) scrimId)
         = db_after (processMatch {} d scrimId)"
proof -
  have run: "db_after (processMatch {} d scrimId) = processed_db d scrimId s"
    "raised (processMatch {} d scrimId) = None"
    "logged (processMatch {} d scrimId) = [Info_processed scrimId]"
    using assms(1-6) by (simp_all add: processMatch_processed)
  have no: "\<lparr>player_id = p, team_id = Some 1\<rparr> \<notin> set (select_players scrimId d)"
    "\<lparr>player_id = p, team_id = Some 2\<rparr> \<notin> set (select_players scrimId d)"
    using assms(7) by (simp_all add: unassigned_on_no_team)
  have s1: "select_scrim scrimId (processed_db d scrimId s) = Some (s\<lparr>elo_processed := Some True\<rparr>)"
    using assms(1) by (simp add: processed_db_scrim)
  have later: "db_after (processMatch F (processed_db d scrimId s) scrimId) = processed_db d scrimId s"
    using processMatch_processed_any [OF s1, of F] by (simp add: truthy_bool_def)
  from processed_db_unrated [OF no, of s] s1 later show ?thesis
    by (simp add: run)
qed

theorem unassigned_participant_excluded_witness:
  "\<lparr>player_id = 30, team_id = None\<rparr> \<in> set (select_players 1 ex_db)
   \<and> raised (processMatch {} ex_db 1) = None
   \<and> filter (\<lambda>r. er_player_id r = 30) (elo_ratings (db_after (processMatch {} ex_db 1))) = []
   \<and> filter (\<lambda>h. eh_player_id h = 30) (elo_history (db_after (processMatch {} ex_db 1))) = []
   \<and> select_scrim 1 (db_after (processMatch {} ex_db 1)) = Some (ex_scrim\<lparr>elo_processed := Some True\<rparr>)
   \<and> db_after (processMatch {} (db_after (processMatch {} ex_db 1)) 1)
       = db_after (processMatch {} ex_db 1)"
proof -
  have h: "\<lparr>player_id = 30, team_id = None\<rparr> \<in> set (select_players 1 ex_db)"
    by (simp add: ex_db_players)
  from unassigned_participant_excluded [OF ex_db_ready h, of "{}"] h show ?thesis
    by (simp add: ex_db_def)
qed

text \<open>
  C6, as the code has it. In a completed, unprocessed scrim won by team 1 whose two teams
  both average 1000, a player listed on one team only whose own pre-match rating is 1000
  gets 1016 on team 1 and 984 on team 2.
\<close>

theorem even_match_ratings:
  assumes "select_scrim scrimId d = Some s" and "status s = ''completed''"
    and "\<not> truthy_bool (elo_processed s)" and "winner_team s = Some 1"
    and "team_of 1 d scrimId \<noteq> []" and "team_of 2 d scrimId \<noteq> []"
    and "avg_rating (scrim_league s) d (team_of 1 d scrimId) = 1000"
    and "avg_rating (scrim_league s) d (team_of 2 d scrimId) = 1000"
    and "t = 1 \<or> t = 2"
    and "\<lparr>player_id = p, team_id = Some t\<rparr> \<in> set (select_players scrimId d)"
    and "\<lparr>player_id = p, team_id = Some (3 - t)\<rparr> \<notin> set (select_players scrimId d)"
    and "rating (rating_or_default p (scrim_league s) d) = 1000"
  shows "raised (processMatch {} d scrimId) = None
     \<and> map_option rating (select_rating p (scrim_league s) (db_after (processMatch {} d scrimId)))
         = Some (if t = 1 then 1016 else 984)"
proof -
  have w: "truthy_int (winner_team s)" using assms(4) by (simp add: truthy_int_def)
  have run: "db_after (processMatch {} d scrimId) = processed_db d scrimId s"
    "raised (processMatch {} d scrimId) = None"
    using assms(1-3) w assms(5,6) by (simp_all add: processMatch_processed)
  have row: "select_rating p (scrim_league s) (processed_db d scrimId s) =
     Some (bump (new_rating_of d scrimId s t p) (team_result s t = 1)
             (rating_or_default p (scrim_league s) d))"
    using assms(9-11) by (rule processed_db_rating)
  have new: "new_rating_of d scrimId s t p = (if t = 1 then 1016 else 984)"
    using assms(9) assms(4,7,8,12)
    by (auto simp: new_rating_of_def team_result_def calc_even_win calc_even_loss)
  show ?thesis
    by (simp add: run row new bump_def)
qed

theorem even_match_ratings_witness:
  "avg_rating Academy ex_db (team_of 1 ex_db 1) = 1000
   \<and> avg_rating Academy ex_db (team_of 2 ex_db 1) = 1000
   \<and> rating (rating_or_default 10 Academy ex_db) = 1000
   \<and> map_option rating (select_rating 10 Academy (db_after (processMatch {} ex_db 1))) = Some 1016"
proof -
  have h: "avg_rating (scrim_league ex_scrim) ex_db (team_of 1 ex_db 1) = 1000"
    "avg_rating (scrim_league ex_scrim) ex_db (team_of 2 ex_db 1) = 1000"
    "(1::int) = 1 \<or> (1::int) = 2"
    "\<lparr>player_id = 10, team_id = Some 1\<rparr> \<in> set (select_players 1 ex_db)"
    "\<lparr>player_id = 10, team_id = Some (3 - 1)\<rparr> \<notin> set (select_players 1 ex_db)"
    "rating (rating_or_default 10 (scrim_league ex_scrim) ex_db) = 1000"
    by (simp_all add: ex_scrim_fields ex_db_teams ex_db_avg ex_db_players rating_or_default_def
        ex_db_empty)
  have w: "winner_team ex_scrim = Some 1" by (simp add: ex_scrim_def)
  from even_match_ratings [OF ex_db_ready(1-3) w ex_db_ready(5,6) h] h(1,2,6) show ?thesis
    by (simp add: ex_scrim_fields)
qed

lemma calc_600: "calculateNewRating 600 1000 1 = 629"
  by (simp add: calculateNewRating_def math_round_def)

lemma ex_uneven_players:
  "select_players 1 ex_uneven = [\<lparr>player_id = 10, team_id = Some 1\<rparr>,
     \<lparr>player_id = 11, team_id = Some 1\<rparr>, \<lparr>player_id = 20, team_id = Some 2\<rparr>]"
  by (simp add: select_players_def joined_rows_def ex_uneven_def)

lemma ex_uneven_ratings:
  "rating_or_default 10 Academy ex_uneven
     = \<lparr>er_player_id = 10, er_league = Academy, rating = 600, wins = 0, losses = 0\<rparr>"
  "rating_or_default 11 Academy ex_uneven
     = \<lparr>er_player_id = 11, er_league = Academy, rating = 1400, wins = 0, losses = 0\<rparr>"
  "rating_or_default 20 Academy ex_uneven
     = \<lparr>er_player_id = 20, er_league = Academy, rating = 1000, wins = 0, losses = 0\<rparr>"
  by (simp_all add: rating_or_default_def select_rating_def ex_uneven_def)

lemma ex_uneven_teams:
  "team_of 1 ex_uneven 1 = [\<lparr>player_id = 10, team_id = Some 1\<rparr>, \<lparr>player_id = 11, team_id = Some 1\<rparr>]"
  "team_of 2 ex_uneven 1 = [\<lparr>player_id = 20, team_id = Some 2\<rparr>]"
  by (simp_all add: team_of_def ex_uneven_players)

text \<open>
  C6, as stated, fails: team 1 (ratings 600 and 1400) and team 2 (rating 1000) both
  average 1000 and team 1 wins, yet the player rated 600 ends at 629, not 1016.
\<close>

theorem even_match_ratings_counterexample:
  "avg_rating Academy ex_uneven (team_of 1 ex_uneven 1) = 1000
   \<and> avg_rating Academy ex_uneven (team_of 2 ex_uneven 1) = 1000
   \<and> winner_team ex_scrim = Some 1
   \<and> select_scrim 1 ex_uneven = Some ex_scrim
   \<and> \<lparr>player_id = 10, team_id = Some 1\<rparr> \<in> set (team_of 1 ex_uneven 1)
   \<and> raised (processMatch {} ex_uneven 1) = None
   \<and> logged (processMatch {} ex_uneven 1) = [Info_processed 1]
   \<and> map_option rating (select_rating 10 Academy (db_after (processMatch {} ex_uneven 1))) = Some 629"
proof -
  have s: "select_scrim 1 ex_uneven = Some ex_scrim"
    by (simp add: select_scrim_def ex_uneven_def ex_scrim_def)
  have a: "avg_rating Academy ex_uneven (team_of 1 ex_uneven 1) = 1000"
    "avg_rating Academy ex_uneven (team_of 2 ex_uneven 1) = 1000"
    by (simp_all add: avg_rating_def ex_uneven_teams ex_uneven_ratings)
  have t: "team_of 1 ex_uneven 1 \<noteq> []" "team_of 2 ex_uneven 1 \<noteq> []"
    by (simp_all add: ex_uneven_teams)
  note run = processMatch_processed [OF s ex_db_ready(2-4) t]
  have row: "select_rating 10 (scrim_league ex_scrim) (processed_db ex_uneven 1 ex_scrim) =
     Some (bump (new_rating_of ex_uneven 1 ex_scrim 1 10) (team_result ex_scrim 1 = 1)
             (rating_or_default 10 (scrim_league ex_scrim) ex_uneven))"
    by (rule processed_db_rating) (simp_all add: ex_uneven_players)
  have new: "new_rating_of ex_uneven 1 ex_scrim 1 10 = 629"
    by (simp add: new_rating_of_def ex_scrim_fields a ex_uneven_ratings calc_600)
  from row have r: "map_option rating (select_rating 10 Academy
      (db_after (processMatch {} ex_uneven 1))) = Some 629"
    by (simp add: run new bump_def ex_scrim_fields)
  have m: "\<lparr>player_id = 10, team_id = Some 1\<rparr> \<in> set (team_of 1 ex_uneven 1)"
    by (simp add: ex_uneven_teams)
  have w: "winner_team ex_scrim = Some 1" by (simp add: ex_scrim_def)
  from a w s m r show ?thesis by (simp add: run)
qed

lemma found_ids_append: "found_ids (xs @ ys) = found_ids xs @ found_ids ys"
  by (induction xs rule: found_ids.induct) simp_all

lemma quiet_bind: "quiet m \<Longrightarrow> (\<And>x. quiet (f x)) \<Longrightarrow> quiet (bind_tx m f)"
  by (fastforce simp: quiet_def bind_tx_def split: prod.splits sum.splits)

lemma quiet_basic:
  "quiet (query_read F q)" "quiet (query_write F w)" "quiet (query_begin F)"
  "quiet (query_rollback F)" "quiet (query_commit F)" "quiet (lift r)" "quiet (throw x)"
  "quiet (return_tx y)"
  "quiet (logger (Info_already_processed i))" "quiet (logger (Warn_missing_teams i))"
  "quiet (logger (Info_processed i))" "quiet (logger (Error_processing i e))"
  by (auto simp: quiet_def query_read_def query_write_def query_begin_def query_rollback_def
      query_commit_def logger_def lift_def throw_def return_tx_def found_ids_append split: if_splits)

lemma quiet_fetch: "quiet (fetch_ratings F l ps m)"
  by (induction ps arbitrary: m) (auto intro!: quiet_bind quiet_basic split: option.split)

lemma quiet_update: "quiet (update_team F s rs a t team)"
  by (induction team) (auto intro!: quiet_bind quiet_basic simp: updatePlayerRating_def)

lemma quiet_rate: "quiet (rate_teams F i s ps rs)"
  unfolding rate_teams_def Let_def
  by (auto intro!: quiet_bind quiet_basic quiet_update)

lemma quiet_try: "quiet (try_body F i)"
  unfolding try_body_def
  by (auto intro!: quiet_bind quiet_basic quiet_fetch quiet_rate split: option.split)

lemma quiet_catch: "quiet (catch_block F i e)"
  unfolding catch_block_def by (intro quiet_bind quiet_basic)

lemma processMatch_quiet: "found_ids (logged (processMatch F d i)) = []"
proof (cases "try_body F i (connect d)")
  case (Pair r c)
  with quiet_try [of F i] have c: "found_ids (logs c) = []"
    by (simp add: quiet_def connect_def)
  show ?thesis
  proof (cases r)
    case (Inl e)
    obtain r' c' where rc: "catch_block F i e c = (r', c')" by (cases "catch_block F i e c")
    with quiet_catch [of F i e] c have "found_ids (logs c') = []" by (simp add: quiet_def)
    with Pair Inl rc show ?thesis by (simp add: processMatch_def processMatch_on_def released_def)
  next
    case (Inr u)
    with Pair c show ?thesis by (simp add: processMatch_def processMatch_on_def released_def)
  qed
qed

lemma process_rows_append:
  "process_rows Fs (xs @ ys) d lg =
     (case process_rows Fs xs d lg of
        (None, d', lg') \<Rightarrow> process_rows Fs ys d' lg'
      | (Some e, d', lg') \<Rightarrow> (Some e, d', lg'))"
  by (induction xs arbitrary: d lg) (auto simp: Let_def split: option.splits)

lemma process_rows_found:
  "process_rows Fs ids d lg = (None, d', lg') \<Longrightarrow> found_ids lg' = found_ids lg @ ids"
proof (induction ids arbitrary: d lg)
  case Nil
  then show ?case by simp
next
  case (Cons i ids)
  from Cons.prems obtain n: "raised (processMatch (Fs i) d i) = None"
    and r: "process_rows Fs ids (db_after (processMatch (Fs i) d i))
        (lg @ [Info_found_unprocessed i] @ logged (processMatch (Fs i) d i)) = (None, d', lg')"
    by (auto simp: Let_def split: option.splits)
  from Cons.IH [OF r] show ?case
    by (simp add: found_ids_append processMatch_quiet)
qed

lemma process_rows_stops:
  assumes "k < length ids"
    and "process_rows Fs (take k ids) d [] = (None, dk, lgk)"
    and "raised (processMatch (Fs (ids ! k)) dk (ids ! k)) = Some e"
  shows "process_rows Fs ids d [] =
     (Some e, dk, lgk @ [Info_found_unprocessed (ids ! k)] @ logged (processMatch (Fs (ids ! k)) dk (ids ! k)))"
proof -
  have ids: "ids = take k ids @ (ids ! k) # drop (Suc k) ids"
    using assms(1) by (simp add: id_take_nth_drop)
  have "process_rows Fs (take k ids @ (ids ! k) # drop (Suc k) ids) d [] =
     (Some e, dk, lgk @ [Info_found_unprocessed (ids ! k)] @ logged (processMatch (Fs (ids ! k)) dk (ids ! k)))"
    using assms(2,3) processMatch_failure [of "Fs (ids ! k)" dk "ids ! k"]
    by (simp add: process_rows_append Let_def)
  with ids show ?thesis by simp
qed

text \<open>
  C4, as the code has it. The \<open>catch\<close> of the polling cycle encloses the whole loop: when
  the calls on the first \<open>k\<close> discovered ids return and the call on the next id raises, the
  cycle ends there. The database is the one the first \<open>k\<close> calls left, exactly the first
  \<open>k + 1\<close> ids were invoked, and the last log line is the cycle's error line. When no call
  raises, every discovered id is invoked and no cycle error is logged.
\<close>

theorem poll_cycle_stops_at_error:
  "(k < length (select_unprocessed d)
      \<and> process_rows Fs (take k (select_unprocessed d)) d [] = (None, dk, lgk)
      \<and> raised (processMatch (Fs (select_unprocessed d ! k)) dk (select_unprocessed d ! k)) = Some e
    \<longrightarrow> fst (poll_cycle False Fs d) = dk
      \<and> found_ids (snd (poll_cycle False Fs d)) = take (Suc k) (select_unprocessed d)
      \<and> last (snd (poll_cycle False Fs d)) = Error_polling e)
   \<and> (fst (process_rows Fs (select_unprocessed d) d []) = None
    \<longrightarrow> found_ids (snd (poll_cycle False Fs d)) = select_unprocessed d)"
proof (intro conjI impI)
  assume a: "k < length (select_unprocessed d)
      \<and> process_rows Fs (take k (select_unprocessed d)) d [] = (None, dk, lgk)
      \<and> raised (processMatch (Fs (select_unprocessed d ! k)) dk (select_unprocessed d ! k)) = Some e"
  let ?ids = "select_unprocessed d"
  from a have st: "process_rows Fs ?ids d [] =
     (Some e, dk, lgk @ [Info_found_unprocessed (?ids ! k)] @ logged (processMatch (Fs (?ids ! k)) dk (?ids ! k)))"
    by (intro process_rows_stops) simp_all
  from a have f: "found_ids lgk = take k ?ids"
    using process_rows_found [of Fs "take k ?ids" d "[]" dk lgk] by simp
  from a have tk: "take (Suc k) ?ids = take k ?ids @ [?ids ! k]"
    by (simp add: take_Suc_conv_app_nth)
  show "fst (poll_cycle False Fs d) = dk" by (simp add: poll_cycle_def st)
  show "found_ids (snd (poll_cycle False Fs d)) = take (Suc k) ?ids"
    by (simp add: poll_cycle_def st found_ids_append processMatch_quiet f tk)
  show "last (snd (poll_cycle False Fs d)) = Error_polling e"
    by (simp add: poll_cycle_def st)
next
  assume n: "fst (process_rows Fs (select_unprocessed d) d []) = None"
  then obtain d' lg where p: "process_rows Fs (select_unprocessed d) d [] = (None, d', lg)"
    by (cases "process_rows Fs (select_unprocessed d) d []") auto
  from process_rows_found [OF p] have f: "found_ids lg = select_unprocessed d" by simp
  then show "found_ids (snd (poll_cycle False Fs d)) = select_unprocessed d"
    by (simp add: poll_cycle_def p)
qed

lemma ex_two_unprocessed: "select_unprocessed ex_two = [1, 2]"
  by (simp add: select_unprocessed_def ex_two_def ex_scrim_def)

lemma ex_two_fail:
  "processMatch {0} ex_two 1 = \<lparr>raised = Some Query_failed, db_after = ex_two, pending = ex_two,
     logged = [Error_processing 1 Query_failed], queries = 2, writes = 0\<rparr>"
  by (simp add: run_defs)

lemma ex_two_skip:
  "processMatch {} ex_two 1 = \<lparr>raised = None, db_after = ex_two, pending = ex_two,
     logged = [Warn_missing_teams 1], queries = 4, writes = 0\<rparr>"
  "processMatch {} ex_two 2 = \<lparr>raised = None, db_after = ex_two, pending = ex_two,
     logged = [Warn_missing_teams 2], queries = 4, writes = 0\<rparr>"
  by (simp_all add: run_defs select_players_def ex_two_def ex_scrim_def)

theorem poll_cycle_stops_at_error_witness:
  "select_unprocessed ex_two = [1, 2]
   \<and> raised (processMatch (ex_faults 1) ex_two 1) = Some Query_failed
   \<and> fst (poll_cycle False ex_faults ex_two) = ex_two
   \<and> found_ids (snd (poll_cycle False ex_faults ex_two)) = [1]
   \<and> last (snd (poll_cycle False ex_faults ex_two)) = Error_polling Query_failed
   \<and> fst (process_rows (\<lambda>_. {}) (select_unprocessed ex_two) ex_two []) = None
   \<and> found_ids (snd (poll_cycle False (\<lambda>_. {}) ex_two)) = [1, 2]"
proof -
  have r: "raised (processMatch (ex_faults 1) ex_two 1) = Some Query_failed"
    by (simp add: ex_faults_def ex_two_fail)
  have n: "fst (process_rows (\<lambda>_. {}) (select_unprocessed ex_two) ex_two []) = None"
    by (simp add: ex_two_unprocessed ex_two_skip Let_def)
  from poll_cycle_stops_at_error [of 0 ex_two ex_faults ex_two "[]" Query_failed]
    poll_cycle_stops_at_error [of 0 ex_two "\<lambda>_. {}" ex_two "[]" Query_failed] r n
  show ?thesis by (simp add: ex_two_unprocessed)
qed

text \<open>
  C4, as stated, fails: scrims 1 and 2 are both discovered, the call on scrim 1 raises
  (its \<open>BEGIN\<close> is rejected), and the cycle ends with its error line without invoking
  \<open>processMatch\<close> on scrim 2.
\<close>

theorem poll_cycle_counterexample:
  "select_unprocessed ex_two = [1, 2]
   \<and> raised (processMatch (ex_faults 1) ex_two 1) = Some Query_failed
   \<and> ex_faults 2 = {}
   \<and> snd (poll_cycle False ex_faults ex_two) =
       [Info_found_unprocessed 1, Error_processing 1 Query_failed, Error_polling Query_failed]
   \<and> Info_found_unprocessed 2 \<notin> set (snd (poll_cycle False ex_faults ex_two))"
  by (simp add: ex_two_unprocessed ex_faults_def ex_two_fail poll_cycle_def Let_def)








text \<open>
  C9, as stated, fails for a participant without a team slot: player 30 of \<open>ex_db\<close> has no
  rating row, the call succeeds as processed, and player 30 still has no rating row.
\<close>

theorem lazy_default_rating_counterexample:
  "\<lparr>player_id = 30, team_id = None\<rparr> \<in> set (select_players 1 ex_db)
   \<and> select_rating 30 Academy ex_db = None
   \<and> raised (processMatch {} ex_db 1) = None
   \<and> logged (processMatch {} ex_db 1) = [Info_processed 1]
   \<and> select_rating 30 Academy (db_after (processMatch {} ex_db 1)) = None"
proof -
  have "select_rating 30 Academy (processed_db ex_db 1 ex_scrim) = None"
    by (simp add: processed_db_def Let_def select_rating_mark select_rating_rate_player
        ex_db_teams ex_db_empty)
  then show ?thesis
    by (simp add: processMatch_processed [OF ex_db_ready] ex_db_players ex_db_empty)
qed

end
